theory Spec2Isabelle
  imports Complex_Main "HOL-Library.Word" "HOL-Library.Signed_Division"
begin

section \<open>The HDD image writer of pcsx2/DEV9/ATA/HddCreate.cpp\<close>

text \<open>
  \<^verbatim>\<open>HddCreate::WriteImage\<close> creates a file of a requested size and fills it with
  zero bytes, one MiB at a time, publishing the number of finished MiB and
  looking at a cancel latch after every MiB. The embedding follows the source
  statement by statement. What the worker gets from outside (the answers of the
  file system, the readings of the steady clock, the values it loads from the
  cancel latch that another thread sets) is an input of the model, the record
  \<open>environment\<close>.
\<close>

subsection \<open>Machine integers\<close>

type_synonym u8 = "8 word"
type_synonym s32 = "32 word"
type_synonym u64 = "64 word"
type_synonym path = string

text \<open>
  \<^verbatim>\<open>(reqSizeBytes + ((1024 * 1024) - 1)) / (1024 * 1024)\<close> is computed in
  \<^verbatim>\<open>u64\<close> (the sum wraps modulo \<open>2 ^ 64\<close>) and then narrowed to a 32-bit signed
  integer, which keeps the low 32 bits. \<^verbatim>\<open>Start\<close> stores it in an \<^verbatim>\<open>int\<close>,
  \<^verbatim>\<open>WriteImage\<close> in an \<^verbatim>\<open>s32\<close>; \<^verbatim>\<open>neededSize\<close> is declared in HddCreate.h,
  which is not part of the sources at hand, and is taken to be the \<^verbatim>\<open>u64\<close> that
  \<^verbatim>\<open>WriteImage\<close> receives it as.
\<close>

definition Start_reqMiB :: "u64 \<Rightarrow> int" where
  "Start_reqMiB neededSize =
     sint (ucast ((neededSize + ((1024 * 1024) - 1)) div (1024 * 1024)) :: s32)"

definition WriteImage_reqMiB :: "u64 \<Rightarrow> int" where
  "WriteImage_reqMiB reqSizeBytes =
     sint (ucast ((reqSizeBytes + ((1024 * 1024) - 1)) div (1024 * 1024)) :: s32)"

text \<open>
  \<^verbatim>\<open>std::min<s32>(1024, (reqSizeBytes / 1024) - (u64)iMiB * 1024) / 4\<close>: the
  difference is a \<^verbatim>\<open>u64\<close>, narrowed to \<^verbatim>\<open>s32\<close> by the explicit template
  argument; the division is C++'s, which truncates towards zero.
\<close>

definition req4Kib_of :: "u64 \<Rightarrow> nat \<Rightarrow> int" where
  "req4Kib_of reqSizeBytes iMiB =
     min 1024 (sint (ucast (reqSizeBytes div 1024 - word_of_nat iMiB * 1024) :: s32)) sdiv 4"

text \<open>
  \<^verbatim>\<open>reqSizeBytes - (((u64)iMiB) * (1024 * 1024) + req4Kib * 4096)\<close>, narrowed to
  \<^verbatim>\<open>s32\<close>. The product \<^verbatim>\<open>req4Kib * 4096\<close> is an \<^verbatim>\<open>int\<close>, converted to \<^verbatim>\<open>u64\<close>
  for the sum.
\<close>

definition remainingBytes_of :: "u64 \<Rightarrow> nat \<Rightarrow> int \<Rightarrow> int" where
  "remainingBytes_of reqSizeBytes iMiB req4Kib =
     sint (ucast (reqSizeBytes - (word_of_nat iMiB * (1024 * 1024) + word_of_int (req4Kib * 4096)))
             :: s32)"

text \<open>
  \<^verbatim>\<open>duration_cast<milliseconds>(now - lastUpdate).count()\<close>: time points are
  counted in nanoseconds, the cast divides by \<open>10 ^ 6\<close> and truncates towards
  zero.
\<close>

definition elapsed_ms :: "int \<Rightarrow> int \<Rightarrow> int" where
  "elapsed_ms now earlier = (now - earlier) sdiv 1000000"

subsection \<open>Environment, outcomes and the worker's state\<close>

text \<open>
  The source has one error latch and no error kinds. The model also says at
  which \<^verbatim>\<open>return\<close> the worker left, under the names the specification gives to
  the error kinds; \<open>Undefined\<close> stands for a run that leaves the behaviour
  defined by the language (a signed overflow of \<^verbatim>\<open>req4Kib * 4096\<close>, a tail
  write whose count is negative or larger than the 4096-byte buffer).
\<close>

datatype outcome =
  Completed | PathAlreadyExists | OpenFailure | SeekOrWriteFailure | UserCanceled | Undefined

text \<open>The three \<^verbatim>\<open>write\<close> calls of the source: line 108, line 130 (unit, chunk), line 143 (unit).\<close>

datatype site = SizeWrite | ChunkWrite nat nat | TailWrite nat

datatype io_event =
  Created path | SeekFailed int | Wrote site nat | WriteFailed site | Removed path

record environment =
  open_fails :: bool
  size_seek_fails :: bool
  size_write_fails :: bool
  rewind_fails :: bool
  chunk_write_fails :: "nat \<Rightarrow> nat \<Rightarrow> bool"
  tail_write_fails :: "nat \<Rightarrow> bool"
  flush_fails :: bool
  close_fails :: bool
  now_start :: int
  now_at :: "nat \<Rightarrow> int"
  canceled_at :: "nat \<Rightarrow> bool"

text \<open>
  The fields of the \<^verbatim>\<open>HddCreate\<close> object that the worker reads or writes. The
  class is declared in HddCreate.h, which is not among the sources at hand:
  \<^verbatim>\<open>written\<close> and \<^verbatim>\<open>errored\<close> are the atomics behind \<^verbatim>\<open>SetFileProgress\<close> and
  \<^verbatim>\<open>SetError\<close>, \<^verbatim>\<open>lastUpdate\<close> is a time point of the steady clock. The third
  atomic, \<^verbatim>\<open>canceled\<close>, is written by the thread that runs \<^verbatim>\<open>Start\<close>; the
  worker only loads it, and what it loads is part of the environment.
\<close>

record HddCreate =
  filePath :: path
  written :: int
  errored :: bool
  lastUpdate :: int

text \<open>
  The worker's state: the object, the disk (a map from paths to contents), the
  local stream \<^verbatim>\<open>newImage\<close> (the file it is attached to, its put position and
  its fail state) and two histories that the source does not keep: the file
  operations carried out, and the values stored into \<^verbatim>\<open>written\<close>, each with the
  clock reading it was published at.
\<close>

record worker = HddCreate +
  disk :: "path \<rightharpoonup> u8 list"
  opened :: path
  pos :: nat
  failbit :: bool
  io_log :: "io_event list"
  emitted :: "(int \<times> int) list"

datatype flow = Next worker | Exit outcome worker

definition enter :: "HddCreate \<Rightarrow> (path \<rightharpoonup> u8 list) \<Rightarrow> worker" where
  "enter obj dsk =
     \<lparr>filePath = filePath obj, written = written obj, errored = errored obj,
      lastUpdate = lastUpdate obj, disk = dsk, opened = [], pos = 0, failbit = False,
      io_log = [], emitted = []\<rparr>"

subsection \<open>File system and stream\<close>

definition fs_exists :: "worker \<Rightarrow> path \<Rightarrow> bool" where
  "fs_exists s p = (disk s p \<noteq> None)"

definition fs_remove :: "path \<Rightarrow> worker \<Rightarrow> worker" where
  "fs_remove p s = s\<lparr>disk := (disk s)(p := None), io_log := io_log s @ [Removed p]\<rparr>"

text \<open>Opening with \<^verbatim>\<open>std::ios::out | std::ios::binary\<close> creates an empty file.\<close>

definition fstream_open :: "environment \<Rightarrow> path \<Rightarrow> worker \<Rightarrow> worker" where
  "fstream_open env p s =
     (if open_fails env then s\<lparr>opened := p, failbit := True\<rparr>
      else s\<lparr>disk := (disk s)(p \<mapsto> []), opened := p, pos := 0, failbit := False,
             io_log := io_log s @ [Created p]\<rparr>)"

text \<open>
  \<^verbatim>\<open>seekp(off, std::ios::beg)\<close> does nothing on a failed stream; it fails on a
  negative offset or when the environment says so, and sets the fail state.
\<close>

definition seekp :: "bool \<Rightarrow> int \<Rightarrow> worker \<Rightarrow> worker" where
  "seekp fails off s =
     (if failbit s then s
      else if fails \<or> off < 0 then s\<lparr>failbit := True, io_log := io_log s @ [SeekFailed off]\<rparr>
      else s\<lparr>pos := nat off\<rparr>)"

text \<open>Writing at a position past the end leaves a gap that reads as zero bytes.\<close>

definition write_at :: "u8 list \<Rightarrow> nat \<Rightarrow> u8 list \<Rightarrow> u8 list" where
  "write_at c p d = take p (c @ replicate (p - length c) 0) @ d @ drop (p + length d) c"

definition content :: "worker \<Rightarrow> u8 list" where
  "content s = (case disk s (opened s) of None \<Rightarrow> [] | Some c \<Rightarrow> c)"

text \<open>
  \<^verbatim>\<open>write\<close> does nothing on a failed stream. The model has no buffer: a write that
  succeeds is on the disk at once, one that fails leaves the disk as it was.
\<close>

definition stream_write :: "bool \<Rightarrow> site \<Rightarrow> u8 list \<Rightarrow> worker \<Rightarrow> worker" where
  "stream_write fails call d s =
     (if failbit s then s\<lparr>io_log := io_log s @ [WriteFailed call]\<rparr>
      else if fails then s\<lparr>failbit := True, io_log := io_log s @ [WriteFailed call]\<rparr>
      else s\<lparr>disk := (disk s)(opened s \<mapsto> write_at (content s) (pos s) d),
             pos := pos s + length d,
             io_log := io_log s @ [Wrote call (length d)]\<rparr>)"

definition stream_flush :: "environment \<Rightarrow> worker \<Rightarrow> worker" where
  "stream_flush env s = s\<lparr>failbit := failbit s \<or> flush_fails env\<rparr>"

definition stream_close :: "environment \<Rightarrow> worker \<Rightarrow> worker" where
  "stream_close env s = s\<lparr>failbit := failbit s \<or> close_fails env\<rparr>"

subsection \<open>The worker\<close>

definition buffsize :: nat where
  "buffsize = 4 * 1024"

definition buff :: "u8 list" where
  "buff = replicate buffsize 0"

definition SetError :: "worker \<Rightarrow> worker" where
  "SetError s = s\<lparr>errored := True\<rparr>"

text \<open>The caller has just set \<^verbatim>\<open>lastUpdate = now\<close>, so \<open>lastUpdate s\<close> is the time of this store.\<close>

definition SetFileProgress :: "int \<Rightarrow> worker \<Rightarrow> worker" where
  "SetFileProgress currentSize s =
     s\<lparr>written := currentSize, emitted := emitted s @ [(lastUpdate s, currentSize)]\<rparr>"

text \<open>\<^verbatim>\<open>newImage.close(); fs::remove(filePath); SetError(); return;\<close>\<close>

definition abandon :: "environment \<Rightarrow> worker \<Rightarrow> worker" where
  "abandon env s = SetError (fs_remove (filePath s) (stream_close env s))"

text \<open>\<^verbatim>\<open>newImage.write((char*)buff, buffsize)\<close> in round \<open>i4kb\<close> of unit \<open>iMiB\<close>.\<close>

definition write_chunk :: "environment \<Rightarrow> nat \<Rightarrow> nat \<Rightarrow> worker \<Rightarrow> worker" where
  "write_chunk env iMiB i4kb s =
     stream_write (chunk_write_fails env iMiB i4kb) (ChunkWrite iMiB i4kb) buff s"

function chunk_loop :: "environment \<Rightarrow> nat \<Rightarrow> int \<Rightarrow> nat \<Rightarrow> worker \<Rightarrow> flow" where
  "chunk_loop env iMiB req4Kib i4kb s =
     (if int i4kb < req4Kib then
        (let s' = write_chunk env iMiB i4kb s
         in if failbit s' then Exit SeekOrWriteFailure (abandon env s')
            else chunk_loop env iMiB req4Kib (i4kb + 1) s')
      else Next s)"
  by pat_completeness auto
termination
  by (relation "measure (\<lambda>(env, iMiB, req4Kib, i4kb, s). nat (req4Kib - int i4kb))") auto

declare chunk_loop.simps [simp del]

text \<open>\<^verbatim>\<open>newImage.write((char*)buff, remainingBytes)\<close> of unit \<open>iMiB\<close>.\<close>

definition write_tail :: "environment \<Rightarrow> nat \<Rightarrow> int \<Rightarrow> worker \<Rightarrow> worker" where
  "write_tail env iMiB remainingBytes s =
     stream_write (tail_write_fails env iMiB) (TailWrite iMiB) (take (nat remainingBytes) buff) s"

definition tail_write :: "environment \<Rightarrow> u64 \<Rightarrow> nat \<Rightarrow> int \<Rightarrow> worker \<Rightarrow> flow" where
  "tail_write env reqSizeBytes iMiB req4Kib s =
     (if req4Kib * 4096 < - (2 ^ 31) \<or> 2 ^ 31 \<le> req4Kib * 4096 then Exit Undefined s
      else
        (let remainingBytes = remainingBytes_of reqSizeBytes iMiB req4Kib
         in if remainingBytes < 0 \<or> int buffsize < remainingBytes then Exit Undefined s
            else
              (let s' = write_tail env iMiB remainingBytes s
               in if failbit s' then Exit SeekOrWriteFailure (abandon env s') else Next s')))"

definition publish :: "environment \<Rightarrow> int \<Rightarrow> nat \<Rightarrow> worker \<Rightarrow> worker" where
  "publish env reqMiB iMiB s =
     (let now = now_at env iMiB
      in if 100 \<le> elapsed_ms now (lastUpdate s) \<or> int iMiB + 1 = reqMiB
         then SetFileProgress (int iMiB + 1) (s\<lparr>lastUpdate := now\<rparr>)
         else s)"

definition check_cancel :: "environment \<Rightarrow> nat \<Rightarrow> worker \<Rightarrow> flow" where
  "check_cancel env iMiB s =
     (if canceled_at env iMiB then Exit UserCanceled (abandon env s) else Next s)"

text \<open>One round of the outer loop, lines 126 to 165.\<close>

definition unit_body :: "environment \<Rightarrow> u64 \<Rightarrow> int \<Rightarrow> nat \<Rightarrow> worker \<Rightarrow> flow" where
  "unit_body env reqSizeBytes reqMiB iMiB s =
     (let req4Kib = req4Kib_of reqSizeBytes iMiB
      in case chunk_loop env iMiB req4Kib 0 s of
           Exit r s' \<Rightarrow> Exit r s'
         | Next s1 \<Rightarrow>
             (case (if req4Kib \<noteq> 256 then tail_write env reqSizeBytes iMiB req4Kib s1
                    else Next s1) of
                Exit r s' \<Rightarrow> Exit r s'
              | Next s2 \<Rightarrow> check_cancel env iMiB (publish env reqMiB iMiB s2)))"

function unit_loop :: "environment \<Rightarrow> u64 \<Rightarrow> int \<Rightarrow> nat \<Rightarrow> worker \<Rightarrow> flow" where
  "unit_loop env reqSizeBytes reqMiB iMiB s =
     (if int iMiB < reqMiB then
        (case unit_body env reqSizeBytes reqMiB iMiB s of
           Exit r s' \<Rightarrow> Exit r s'
         | Next s' \<Rightarrow> unit_loop env reqSizeBytes reqMiB (iMiB + 1) s')
      else Next s)"
  by pat_completeness auto
termination
  by (relation "measure (\<lambda>(env, reqSizeBytes, reqMiB, iMiB, s). nat (reqMiB - int iMiB))") auto

declare unit_loop.simps [simp del]

text \<open>
  \<^verbatim>\<open>WriteImage\<close>, lines 86 to 169. The offset of the first \<^verbatim>\<open>seekp\<close> is
  \<^verbatim>\<open>reqSizeBytes - 1\<close>, a \<^verbatim>\<open>u64\<close> read as the signed 64-bit stream offset.
\<close>

definition WriteImage ::
  "environment \<Rightarrow> path \<Rightarrow> u64 \<Rightarrow> HddCreate \<Rightarrow> (path \<rightharpoonup> u8 list) \<Rightarrow> outcome \<times> worker" where
  "WriteImage env hddPath reqSizeBytes obj dsk =
     (let s0 = enter obj dsk
      in if fs_exists s0 hddPath then (PathAlreadyExists, SetError s0)
         else
           (let s1 = fstream_open env hddPath s0
            in if failbit s1 then (OpenFailure, SetError s1)
               else
                 (let s2 = stream_write (size_write_fails env) SizeWrite [0]
                             (seekp (size_seek_fails env) (sint (reqSizeBytes - 1)) s1)
                  in if failbit s2 then (SeekOrWriteFailure, abandon env s2)
                     else
                       (let s3 = seekp (rewind_fails env) 0 (s2\<lparr>lastUpdate := now_start env\<rparr>);
                            reqMiB = WriteImage_reqMiB reqSizeBytes
                        in case unit_loop env reqSizeBytes reqMiB 0 s3 of
                             Exit r s' \<Rightarrow> (r, s')
                           | Next s' \<Rightarrow> (Completed, stream_close env (stream_flush env s'))))))"

subsection \<open>Predicates for the proofs\<close>

text \<open>A chunk or tail write that left the stream failed.\<close>

fun unit_failure :: "io_event \<Rightarrow> bool" where
  "unit_failure (WriteFailed (ChunkWrite u i)) = True"
| "unit_failure (WriteFailed (TailWrite u)) = True"
| "unit_failure _ = False"

text \<open>No chunk or tail write has failed so far.\<close>

definition clean :: "worker \<Rightarrow> bool" where
  "clean s = (\<not> list_ex unit_failure (io_log s))"

text \<open>
  What a piece of the loop does to the object when it starts in \<open>s\<close>: it never changes
  \<^verbatim>\<open>filePath\<close>; going on, it leaves the latch alone; returning early, it has either
  removed \<^verbatim>\<open>filePath\<close> and set the latch, or left the defined behaviour
  without touching the latch.
\<close>

definition leaves :: "worker \<Rightarrow> flow \<Rightarrow> bool" where
  "leaves s res =
     (case res of
        Next s' \<Rightarrow> filePath s' = filePath s \<and> errored s' = errored s \<and> opened s' = opened s \<and> clean s'
      | Exit r s' \<Rightarrow>
          filePath s' = filePath s \<and>
          (r = SeekOrWriteFailure \<and> errored s' \<and> disk s' (filePath s) = None \<and>
             last (io_log s') = Removed (filePath s) \<or>
           r = UserCanceled \<and> errored s' \<and> disk s' (filePath s) = None \<and>
             last (io_log s') = Removed (filePath s) \<and> clean s' \<or>
           r = Undefined \<and> errored s' = errored s \<and> clean s'))"

text \<open>
  The state in which \<^verbatim>\<open>WriteImage\<close> enters its loop, when the path was free, the file
  opened and the stream was good at line 110.
\<close>

definition loop_entry :: "environment \<Rightarrow> path \<Rightarrow> u64 \<Rightarrow> HddCreate \<Rightarrow> (path \<rightharpoonup> u8 list) \<Rightarrow> worker" where
  "loop_entry env hddPath reqSizeBytes obj dsk =
     seekp (rewind_fails env) 0
       ((stream_write (size_write_fails env) SizeWrite [0]
          (seekp (size_seek_fails env) (sint (reqSizeBytes - 1))
             (fstream_open env hddPath (enter obj dsk))))\<lparr>lastUpdate := now_start env\<rparr>)"

text \<open>The sizing seek and the one-byte write of lines 106 to 108 succeed.\<close>

definition sized :: "environment \<Rightarrow> u64 \<Rightarrow> bool" where
  "sized env reqSizeBytes =
     (\<not> size_seek_fails env \<and> 0 \<le> sint (reqSizeBytes - 1) \<and> \<not> size_write_fails env)"

text \<open>The value of an integer narrowed to 32 bits, two's complement.\<close>

definition s32_of :: "int \<Rightarrow> int" where
  "s32_of k = (k + 2147483648) mod 4294967296 - 2147483648"

text \<open>The fields that only \<^verbatim>\<open>publish\<close> changes are the same in two states.\<close>

definition same_progress :: "worker \<Rightarrow> worker \<Rightarrow> bool" where
  "same_progress s t = (emitted t = emitted s \<and> written t = written s \<and> lastUpdate t = lastUpdate s)"

text \<open>The state a piece of the loop ends in, going on or returning.\<close>

definition state_of :: "flow \<Rightarrow> worker" where
  "state_of res = (case res of Next s \<Rightarrow> s | Exit r s \<Rightarrow> s)"

text \<open>
  The invariant of the outer loop for the progress counter, before unit \<open>u\<close> with
  unit count \<open>m\<close>: the published values, after the initial 0, increase strictly,
  none exceeds \<open>u\<close> or \<open>m\<close>, the counter holds the last of them, and once all
  \<open>m\<close> units are done the last published value is \<open>m\<close>.
\<close>

definition counted :: "int \<Rightarrow> nat \<Rightarrow> worker \<Rightarrow> bool" where
  "counted m u s =
     (sorted_wrt (<) (0 # map snd (emitted s)) \<and>
      (\<forall>v\<in>set (map snd (emitted s)). v \<le> int u \<and> v \<le> m) \<and>
      written s = last (0 # map snd (emitted s)) \<and>
      (0 < m \<longrightarrow> int u \<le> m) \<and>
      (0 < u \<and> int u = m \<longrightarrow> emitted s \<noteq> [] \<and> snd (last (emitted s)) = m))"

text \<open>What remains of \<open>counted\<close> when the loop is left.\<close>

definition tally :: "int \<Rightarrow> worker \<Rightarrow> bool" where
  "tally m s =
     (sorted_wrt (<) (0 # map snd (emitted s)) \<and>
      (\<forall>v\<in>set (map snd (emitted s)). v \<le> m) \<and>
      written s = last (0 # map snd (emitted s)))"

text \<open>
  Two emissions, each a clock reading in nanoseconds and a value: the later one is
  at least 100 ms after the earlier one, or it is the one of the final unit.
\<close>

definition spaced :: "int \<Rightarrow> int \<times> int \<Rightarrow> int \<times> int \<Rightarrow> bool" where
  "spaced m a b = (100000000 \<le> fst b - fst a \<or> snd b = m)"

text \<open>
  The invariant of the outer loop for the throttle: all emissions so far are
  spaced, and while units remain none is later than \<^verbatim>\<open>lastUpdate\<close>.
\<close>

definition paced :: "int \<Rightarrow> nat \<Rightarrow> worker \<Rightarrow> bool" where
  "paced m u s =
     (sorted_wrt (spaced m) (emitted s) \<and>
      (int u < m \<longrightarrow> (\<forall>e\<in>set (emitted s). fst e \<le> lastUpdate s)))"

subsection \<open>The unit plan in the words of the specification\<close>

text \<open>
  \<open>chunksThisUnit = min(256, floor((requestedBytes/1024 - unit*1024))/4)\<close>, and the
  tail \<open>N - (u * 1 MiB + chunksThisUnit * 4096)\<close>, over the natural numbers.
\<close>

definition spec_chunks :: "nat \<Rightarrow> nat \<Rightarrow> nat" where
  "spec_chunks n u = min 256 ((n div 1024 - u * 1024) div 4)"

definition spec_tail :: "nat \<Rightarrow> nat \<Rightarrow> nat" where
  "spec_tail n u = n - (u * 2 ^ 20 + spec_chunks n u * 4096)"

text \<open>
  The writes of unit \<open>u\<close> as the specification plans them: the full chunks, then the
  tail if there are fewer than 256.
\<close>

definition spec_unit_writes :: "nat \<Rightarrow> nat \<Rightarrow> io_event list" where
  "spec_unit_writes n u =
     map (\<lambda>i. Wrote (ChunkWrite u i) 4096) [0..<spec_chunks n u] @
     (if spec_chunks n u < 256 then [Wrote (TailWrite u) (spec_tail n u)] else [])"

text \<open>The file at \<open>p\<close>, the one the stream is attached to, holds \<open>n\<close> zero bytes.\<close>

definition zeroed :: "nat \<Rightarrow> path \<Rightarrow> worker \<Rightarrow> bool" where
  "zeroed n p s = (disk s p = Some (replicate n 0) \<and> opened s = p)"

text \<open>
  The state after successful writes of \<open>k\<close> zero bytes in all, logged as \<open>evs\<close>, into a
  zeroed file.
\<close>

definition moved :: "nat \<Rightarrow> io_event list \<Rightarrow> worker \<Rightarrow> worker" where
  "moved k evs s = s\<lparr>pos := pos s + k, io_log := io_log s @ evs\<rparr>"

text \<open>The log of the first \<open>j\<close> chunk writes of unit \<open>u\<close>.\<close>

definition chunk_writes :: "nat \<Rightarrow> nat \<Rightarrow> io_event list" where
  "chunk_writes u j = map (\<lambda>i. Wrote (ChunkWrite u i) 4096) [0..<j]"

text \<open>
  The log and the byte count of a unit all of whose writes succeed, from the
  source's expressions.
\<close>

definition unit_writes :: "u64 \<Rightarrow> nat \<Rightarrow> io_event list" where
  "unit_writes N u =
     chunk_writes u (nat (req4Kib_of N u)) @
     (if req4Kib_of N u \<noteq> 256
      then [Wrote (TailWrite u) (nat (remainingBytes_of N u (req4Kib_of N u)))] else [])"

definition unit_bytes :: "u64 \<Rightarrow> nat \<Rightarrow> nat" where
  "unit_bytes N u =
     nat (req4Kib_of N u) * 4096 +
     (if req4Kib_of N u \<noteq> 256 then nat (remainingBytes_of N u (req4Kib_of N u)) else 0)"

text \<open>A whole round of the outer loop in which every write succeeds and no cancellation is seen.\<close>

definition unit_step :: "environment \<Rightarrow> u64 \<Rightarrow> int \<Rightarrow> nat \<Rightarrow> worker \<Rightarrow> worker" where
  "unit_step env N m u s = publish env m u (moved (unit_bytes N u) (unit_writes N u) s)"

text \<open>An environment in which no file operation fails and the cancel latch never reads set.\<close>

definition obliging :: "environment \<Rightarrow> bool" where
  "obliging env =
     (\<not> open_fails env \<and> \<not> size_seek_fails env \<and> \<not> size_write_fails env \<and>
      \<not> rewind_fails env \<and> (\<forall>iMiB i4kb. \<not> chunk_write_fails env iMiB i4kb) \<and>
      (\<forall>iMiB. \<not> tail_write_fails env iMiB) \<and> \<not> flush_fails env \<and> \<not> close_fails env \<and>
      (\<forall>iMiB. \<not> canceled_at env iMiB))"

subsection \<open>A concrete environment and object\<close>

text \<open>An environment in which nothing fails, the clock stands still and nobody cancels.\<close>

definition quiet :: environment where
  "quiet =
     \<lparr>open_fails = False, size_seek_fails = False, size_write_fails = False,
      rewind_fails = False, chunk_write_fails = (\<lambda>iMiB i4kb. False),
      tail_write_fails = (\<lambda>iMiB. False), flush_fails = False, close_fails = False,
      now_start = 0, now_at = (\<lambda>iMiB. 0), canceled_at = (\<lambda>iMiB. False)\<rparr>"

text \<open>A new \<^verbatim>\<open>HddCreate\<close> object for a path: nothing written, no error.\<close>

definition fresh :: "path \<Rightarrow> HddCreate" where
  "fresh p = \<lparr>filePath = p, written = 0, errored = False, lastUpdate = 0\<rparr>"

text \<open>The quiet environment, except that the tail write of unit \<open>k\<close> fails.\<close>

definition tail_fails_at :: "nat \<Rightarrow> environment" where
  "tail_fails_at k = quiet\<lparr>tail_write_fails := (\<lambda>iMiB. iMiB = k)\<rparr>"

text \<open>
  The quiet environment, except that the cancel latch reads set from the boundary
  of unit \<open>k\<close> on.
\<close>

definition cancel_at :: "nat \<Rightarrow> environment" where
  "cancel_at k = quiet\<lparr>canceled_at := (\<lambda>iMiB. k \<le> iMiB)\<rparr>"

text \<open>
  The quiet environment with a clock: 150 ms have passed at the first unit boundary,
  10 ms more at each later one.
\<close>

definition ticking :: environment where
  "ticking = quiet\<lparr>now_at := (\<lambda>iMiB. 150000000 + 10000000 * int iMiB)\<rparr>"

section \<open>Arithmetic of the unit counters\<close>

lemma ceil_div_int:
  fixes a b :: int
  assumes b: "0 < b"
  shows "- (- a div b) = (a + (b - 1)) div b"
proof -
  define q r where "q = a div b" and "r = a mod b"
  have a: "a = b * q + r" and r: "0 \<le> r" "r < b"
    using b by (simp_all add: q_def r_def)
  show ?thesis
  proof (cases "r = 0")
    case True
    have "- a div b = - q"
      by (rule int_div_pos_eq [where r = 0]) (use a True b in \<open>simp_all add: algebra_simps\<close>)
    moreover have "(a + (b - 1)) div b = q"
      by (rule int_div_pos_eq [where r = "b - 1"]) (use a True b in \<open>simp_all add: algebra_simps\<close>)
    ultimately show ?thesis by simp
  next
    case False
    have "- a div b = - (q + 1)"
      by (rule int_div_pos_eq [where r = "b - r"]) (use a False r in \<open>simp_all add: algebra_simps\<close>)
    moreover have "(a + (b - 1)) div b = q + 1"
      by (rule int_div_pos_eq [where r = "r - 1"]) (use a False r in \<open>simp_all add: algebra_simps\<close>)
    ultimately show ?thesis by simp
  qed
qed

lemma ceil_MiB: "\<lceil>real n / 2 ^ 20\<rceil> = (int n + 1048575) div 1048576"
proof -
  have "\<lceil>real n / 2 ^ 20\<rceil> = \<lceil>of_int (int n) / (of_int 1048576 :: real)\<rceil>"
    by simp
  also have "\<dots> = - (- int n div 1048576)"
    by (rule ceiling_divide_eq_div)
  also have "\<dots> = (int n + (1048576 - 1)) div 1048576"
    by (rule ceil_div_int) simp
  finally show ?thesis by simp
qed

text \<open>Narrowing a \<^verbatim>\<open>u64\<close> to \<^verbatim>\<open>s32\<close> keeps the low 32 bits, read as two's complement.\<close>

lemma narrow_s32:
  "sint (ucast (w :: u64) :: s32) = (uint w + 2147483648) mod 4294967296 - 2147483648"
proof -
  have "(ucast w :: s32) = word_of_int (uint w)"
    by simp
  then show ?thesis
    by (simp only: int_word_sint) simp
qed

lemma reqMiB_int:
  "WriteImage_reqMiB N =
     ((uint N + 1048575) mod 18446744073709551616 div 1048576 + 2147483648) mod 4294967296
       - 2147483648"
  by (simp add: WriteImage_reqMiB_def narrow_s32 uint_div uint_word_ariths)

lemma uint_le_of_unat: "unat (N :: u64) \<le> c \<Longrightarrow> uint N \<le> int c"
  by (metis of_nat_mono uint_nat)

lemma reqMiB_in_range:
  assumes "unat N \<le> (2 ^ 31 - 1) * 2 ^ 20"
  shows "WriteImage_reqMiB N = \<lceil>real (unat N) / 2 ^ 20\<rceil>"
proof -
  define n where "n = uint N"
  have n: "n \<le> 2251799812636672" "0 \<le> n"
    using uint_le_of_unat [OF assms] unfolding n_def by simp_all
  then have a: "(n + 1048575) mod 18446744073709551616 = n + 1048575"
    by simp
  have b: "0 \<le> (n + 1048575) div 1048576" "(n + 1048575) div 1048576 < 2147483648"
    using n by simp_all
  have "WriteImage_reqMiB N = (n + 1048575) div 1048576"
    unfolding reqMiB_int n_def [symmetric] a using b by simp
  then show ?thesis
    unfolding ceil_MiB n_def by simp
qed

text \<open>The offset of the sizing seek, \<^verbatim>\<open>reqSizeBytes - 1\<close> read as a signed 64-bit integer.\<close>

lemma uint_pos: "(N :: u64) \<noteq> 0 \<Longrightarrow> 0 < uint N"
  by (metis uint_0_iff uint_ge_0 less_le)

lemma sint_u64:
  "sint (w :: u64) = (if uint w < 9223372036854775808 then uint w else uint w - 18446744073709551616)"
proof -
  have b: "0 \<le> uint w" "uint w < 18446744073709551616"
    using uint_lt2p [of w] by simp_all
  have s: "sint w = (uint w + 9223372036854775808) mod 18446744073709551616 - 9223372036854775808"
    using int_word_sint [of "uint w", where 'a = 64] by simp
  show ?thesis
  proof (cases "uint w < 9223372036854775808")
    case True
    with b have "(uint w + 9223372036854775808) mod 18446744073709551616 = uint w + 9223372036854775808"
      by simp
    with s True show ?thesis by simp
  next
    case False
    have "(uint w + 9223372036854775808) mod 18446744073709551616
            = (uint w + 9223372036854775808 - 18446744073709551616) mod 18446744073709551616"
      by (simp only: minus_mod_self2)
    also have "\<dots> = uint w - 9223372036854775808"
      using b False by simp
    finally show ?thesis
      using s False by simp
  qed
qed

lemma sized_iff: "sized env N \<longleftrightarrow>
   \<not> size_seek_fails env \<and> 0 < unat N \<and> unat N \<le> 2 ^ 63 \<and> \<not> size_write_fails env"
proof -
  have n: "uint N = int (unat N)"
    by (rule uint_nat)
  have "0 \<le> sint (N - 1) \<longleftrightarrow> 0 < uint N \<and> uint N \<le> 9223372036854775808"
  proof (cases "N = 0")
    case True
    then show ?thesis by simp
  next
    case False
    then have p: "0 < uint N"
      by (rule uint_pos)
    have b: "uint N < 18446744073709551616"
      using uint_lt2p [of N] by simp
    have "uint (N - 1) = (uint N - 1) mod 18446744073709551616"
      by (simp add: uint_word_ariths)
    also have "\<dots> = uint N - 1"
      using p b by simp
    finally show ?thesis
      using p b by (simp add: sint_u64)
  qed
  moreover have "(0 < uint N \<and> uint N \<le> 9223372036854775808) \<longleftrightarrow>
      (0 < unat N \<and> unat N \<le> 2 ^ 63)"
    using n by (simp del: of_nat_unat) 
  ultimately show ?thesis
    unfolding sized_def by simp
qed

lemma nat_sint_pred: "0 \<le> sint (N - 1 :: u64) \<Longrightarrow> Suc (nat (sint (N - 1))) = unat N"
proof -
  assume a: "0 \<le> sint (N - 1)"
  have "N \<noteq> 0" using a by auto
  then have p: "0 < uint N"
    by (rule uint_pos)
  have b: "uint N < 18446744073709551616"
    using uint_lt2p [of N] by simp
  have "uint (N - 1) = (uint N - 1) mod 18446744073709551616"
    by (simp add: uint_word_ariths)
  also have "\<dots> = uint N - 1"
    using p b by simp
  finally have "sint (N - 1) = uint N - 1"
    using a p b by (simp add: sint_u64 split: if_splits)
  moreover have "uint N = int (unat N)"
    by (rule uint_nat)
  ultimately show ?thesis
    using p by linarith
qed

lemma s32_of_id: "- 2147483648 \<le> k \<Longrightarrow> k < 2147483648 \<Longrightarrow> s32_of k = k"
  by (simp add: s32_of_def)

lemma s32_of_le: "0 \<le> k \<Longrightarrow> s32_of k \<le> k"
proof -
  assume k: "0 \<le> k"
  have "(k + 2147483648) mod 4294967296 \<le> k + 2147483648"
    using k by (intro zmod_le_nonneg_dividend) simp
  then show ?thesis
    by (simp add: s32_of_def)
qed

lemma s32_of_neg: "0 \<le> k \<Longrightarrow> s32_of k < 0 \<Longrightarrow> 2147483648 \<le> k"
proof (rule ccontr)
  assume "0 \<le> k" "s32_of k < 0" "\<not> 2147483648 \<le> k"
  then have "s32_of k = k"
    by (intro s32_of_id) simp_all
  with \<open>0 \<le> k\<close> \<open>s32_of k < 0\<close> show False
    by simp
qed

lemma mod64_mod32:
  "(k mod 18446744073709551616 + (j::int)) mod 4294967296 = (k + j) mod 4294967296"
proof -
  have "(4294967296::int) dvd 18446744073709551616" by simp
  then have "k mod 18446744073709551616 mod 4294967296 = k mod 4294967296"
    by (rule mod_mod_cancel)
  then show ?thesis
    by (metis mod_add_left_eq)
qed

lemma uint_u64_of_nat: "uint (word_of_nat u :: u64) = int u mod 18446744073709551616"
  by (simp add: uint_nat unat_of_nat zmod_int)

lemma narrow_s32_of: "sint (ucast (w :: u64) :: s32) = s32_of (uint w)"
  by (simp add: narrow_s32 s32_of_def)

lemma s32_of_mod64: "s32_of (k mod 18446744073709551616) = s32_of k"
  using mod64_mod32 [of k 2147483648] by (simp add: s32_of_def)

lemma reqMiB_s32: "WriteImage_reqMiB N = s32_of ((uint N + 1048575) mod 18446744073709551616 div 1048576)"
  by (simp add: reqMiB_int s32_of_def)

lemma req4Kib_s32: "req4Kib_of N u = min 1024 (s32_of (uint N div 1024 - int u * 1024)) sdiv 4"
proof -
  have "uint (N div 1024 - word_of_nat u * 1024) = (uint N div 1024 - int u * 1024) mod 18446744073709551616"
    by (simp add: uint_word_ariths uint_u64_of_nat uint_div mod_simps)
  then show ?thesis
    by (simp add: req4Kib_of_def narrow_s32_of s32_of_mod64)
qed

lemma remainingBytes_s32:
  "remainingBytes_of N u r = s32_of (uint N - (int u * 1048576 + r * 4096))"
proof -
  have "uint (N - (word_of_nat u * (1024 * 1024) + word_of_int (r * 4096)))
          = (uint N - (int u * 1048576 + r * 4096)) mod 18446744073709551616"
    by (simp add: uint_word_ariths uint_u64_of_nat uint_word_of_int mod_simps)
  then show ?thesis
    by (simp add: remainingBytes_of_def narrow_s32_of s32_of_mod64)
qed

lemma sdiv4_nonneg: "0 \<le> x \<Longrightarrow> (x::int) sdiv 4 = x div 4"
  by (simp add: signed_divide_int_def sgn_if)

lemma sdiv4_neg: "x < 0 \<Longrightarrow> (x::int) sdiv 4 = - (- x div 4)"
  by (simp add: signed_divide_int_def sgn_if)

text \<open>A unit that the loop runs starts below the requested size.\<close>

lemma unit_below_size:
  assumes "int u < WriteImage_reqMiB N"
  shows "int u * 1048576 < uint N"
proof -
  define n where "n = uint N"
  have n: "0 \<le> n" by (simp add: n_def)
  let ?M = "(n + 1048575) mod 18446744073709551616 div 1048576"
  have "0 \<le> ?M"
    using n by (simp add: pos_imp_zdiv_nonneg_iff)
  then have "s32_of ?M \<le> ?M"
    by (rule s32_of_le)
  moreover have "(n + 1048575) mod 18446744073709551616 \<le> n + 1048575"
    using n by (intro zmod_le_nonneg_dividend) simp
  then have "?M \<le> (n + 1048575) div 1048576"
    by (intro zdiv_mono1) simp_all
  ultimately have "int u + 1 \<le> (n + 1048575) div 1048576"
    using assms by (simp add: reqMiB_s32 n_def)
  then have "(int u + 1) * 1048576 \<le> (n + 1048575) div 1048576 * 1048576"
    by simp
  also have "\<dots> \<le> n + 1048575"
    by (simp add: minus_mod_eq_div_mult [symmetric])
  finally show ?thesis
    by (simp add: n_def)
qed


lemma req4Kib_le: "req4Kib_of N u \<le> 256"
proof -
  define y where "y = min 1024 (s32_of (uint N div 1024 - int u * 1024))"
  have "y \<le> 1024" by (simp add: y_def)
  then have "y sdiv 4 \<le> 256"
    by (cases "0 \<le> y") (simp_all add: sdiv4_nonneg sdiv4_neg)
  then show ?thesis
    by (simp add: req4Kib_s32 y_def)
qed

lemma KiB_nonneg:
  assumes "int u < WriteImage_reqMiB N"
  shows "0 \<le> uint N div 1024 - int u * 1024"
    and "(uint N div 1024 - int u * 1024) * 1024 \<le> uint N - int u * 1048576"
proof -
  have a: "int u * 1048576 < uint N"
    using assms by (rule unit_below_size)
  have "int u * 1024 = (int u * 1048576) div 1024"
    by simp
  also have "\<dots> \<le> uint N div 1024"
    using a by (intro zdiv_mono1) simp_all
  finally show "0 \<le> uint N div 1024 - int u * 1024"
    by simp
  have "uint N div 1024 * 1024 \<le> uint N"
    by (simp add: minus_mod_eq_div_mult [symmetric])
  then show "(uint N div 1024 - int u * 1024) * 1024 \<le> uint N - int u * 1048576"
    by (simp add: algebra_simps)
qed

text \<open>The full chunks of a unit end at or below the requested size.\<close>

lemma chunks_below_size:
  assumes "int u < WriteImage_reqMiB N" and "0 < req4Kib_of N u"
  shows "int u * 1048576 + req4Kib_of N u * 4096 \<le> uint N"
proof -
  define T where "T = uint N div 1024 - int u * 1024"
  define y where "y = min 1024 (s32_of T)"
  have T: "0 \<le> T" "T * 1024 \<le> uint N - int u * 1048576"
    using KiB_nonneg [OF assms(1)] by (simp_all add: T_def)
  have r: "req4Kib_of N u = y sdiv 4"
    by (simp add: req4Kib_s32 y_def T_def)
  have "0 \<le> y"
    using assms(2) unfolding r by (cases "0 \<le> y") (simp_all add: sdiv4_neg)
  then have "req4Kib_of N u = y div 4"
    by (simp add: r sdiv4_nonneg)
  then have "req4Kib_of N u * 4 \<le> y"
    by (simp add: minus_mod_eq_div_mult [symmetric])
  also have "y \<le> s32_of T" by (simp add: y_def)
  also have "\<dots> \<le> T" using T(1) by (rule s32_of_le)
  finally have "req4Kib_of N u * 4096 \<le> T * 1024"
    by simp
  with T(2) show ?thesis
    by simp
qed

text \<open>So does a tail that fits the buffer.\<close>

lemma tail_below_size:
  assumes "int u < WriteImage_reqMiB N"
    and "0 \<le> remainingBytes_of N u (req4Kib_of N u)"
    and "remainingBytes_of N u (req4Kib_of N u) \<le> 4096"
  shows "int u * 1048576 + max 0 (req4Kib_of N u) * 4096 + remainingBytes_of N u (req4Kib_of N u)
           \<le> uint N"
proof (cases "0 < req4Kib_of N u")
  case True
  define R where "R = uint N - (int u * 1048576 + req4Kib_of N u * 4096)"
  have "0 \<le> R"
    using chunks_below_size [OF assms(1) True] by (simp add: R_def)
  then have "s32_of R \<le> R"
    by (rule s32_of_le)
  then show ?thesis
    using True by (simp add: remainingBytes_s32 R_def)
next
  case False
  define T where "T = uint N div 1024 - int u * 1024"
  define y where "y = min 1024 (s32_of T)"
  have T: "0 \<le> T" "T * 1024 \<le> uint N - int u * 1048576"
    using KiB_nonneg [OF assms(1)] by (simp_all add: T_def)
  have r: "req4Kib_of N u = y sdiv 4"
    by (simp add: req4Kib_s32 y_def T_def)
  show ?thesis
  proof (cases "req4Kib_of N u = 0")
    case True
    define R where "R = uint N - int u * 1048576"
    have "0 \<le> R"
      using unit_below_size [OF assms(1)] by (simp add: R_def)
    then have "s32_of R \<le> R"
      by (rule s32_of_le)
    then show ?thesis
      using True by (simp add: remainingBytes_s32 R_def)
  next
    case nz: False
    with False have neg: "req4Kib_of N u < 0"
      by simp
    have "y < 0"
      using neg unfolding r by (cases "0 \<le> y") (simp_all add: sdiv4_nonneg pos_imp_zdiv_nonneg_iff)
    then have "s32_of T < 0"
      by (simp add: y_def)
    with T(1) have "2147483648 \<le> T"
      by (rule s32_of_neg)
    with T(2) have "4096 \<le> uint N - int u * 1048576"
      by simp
    with assms(3) neg show ?thesis
      by simp
  qed
qed

text \<open>
  Below \<open>2 ^ 41\<close> bytes nothing is lost in the narrowing, and the counts are those of
  the specification.
\<close>

lemma int_min_div4: "int (min 256 (k div 4)) = min 256 (int k div 4)"
  by arith

lemma req4Kib_in_range:
  assumes "unat N < 2 ^ 41" and "int u < WriteImage_reqMiB N"
  shows "req4Kib_of N u = int (spec_chunks (unat N) u)"
proof -
  define n where "n = unat N"
  have un: "uint N = int n"
    unfolding n_def by (rule uint_nat)
  define T where "T = int n div 1024 - int u * 1024"
  have T: "0 \<le> T"
    using KiB_nonneg(1) [OF assms(2)] by (simp add: T_def un)
  have "n < 2199023255552"
    using assms(1) by (simp add: n_def)
  then have "int n < 2199023255552"
    by simp
  then have "int n div 1024 < 2147483648"
    by simp
  then have "T < 2147483648"
    using T by (simp add: T_def)
  with T have s: "s32_of T = T"
    by (intro s32_of_id) simp_all
  have "req4Kib_of N u = min 1024 T sdiv 4"
    by (simp add: req4Kib_s32 un T_def s [unfolded T_def])
  also have "\<dots> = min 1024 T div 4"
    using T by (intro sdiv4_nonneg) simp
  also have "\<dots> = min 256 (T div 4)"
    by linarith
  also have "T = int (n div 1024 - u * 1024)"
    using T by (simp add: T_def of_nat_diff zdiv_int)
  finally have "req4Kib_of N u = min 256 (int (n div 1024 - u * 1024) div 4)" .
  also have "\<dots> = int (min 256 ((n div 1024 - u * 1024) div 4))"
    by (rule int_min_div4 [symmetric])
  finally show ?thesis
    by (simp add: spec_chunks_def n_def)
qed

lemma remainingBytes_in_range:
  assumes "unat N < 2 ^ 41" and "int u < WriteImage_reqMiB N" and "spec_chunks (unat N) u < 256"
  shows "remainingBytes_of N u (req4Kib_of N u) = int (spec_tail (unat N) u)"
    and "spec_tail (unat N) u < 4096"
proof -
  define n where "n = unat N"
  have un: "uint N = int n"
    unfolding n_def by (rule uint_nat)
  define T where "T = int n div 1024 - int u * 1024"
  define c where "c = spec_chunks n u"
  have T: "0 \<le> T"
    using KiB_nonneg(1) [OF assms(2)] by (simp add: T_def un)
  then have Tn: "T = int (n div 1024 - u * 1024)"
    by (simp add: T_def of_nat_diff zdiv_int)
  have "int c = min 256 (T div 4)"
    unfolding c_def spec_chunks_def Tn by (rule int_min_div4)
  moreover have "int c < 256"
    using assms(3) by (simp add: c_def n_def)
  ultimately have c: "int c = T div 4" "T < 1024"
    by linarith+
  define R where "R = int n - (int u * 1048576 + int c * 4096)"
  have "int n = int n div 1024 * 1024 + int n mod 1024"
    by simp
  then have "R = (T - T div 4 * 4) * 1024 + int n mod 1024"
    unfolding R_def c(1) T_def by (simp add: algebra_simps)
  also have "T - T div 4 * 4 = T mod 4"
    by (simp add: minus_div_mult_eq_mod)
  finally have R: "R = T mod 4 * 1024 + int n mod 1024" .
  have "0 \<le> T mod 4" "T mod 4 < 4" "0 \<le> int n mod 1024" "int n mod 1024 < 1024"
    by simp_all
  with R have Rb: "0 \<le> R" "R < 4096"
    by linarith+
  have r: "req4Kib_of N u = int c"
    using assms(1,2) by (simp add: req4Kib_in_range c_def n_def)
  have "remainingBytes_of N u (req4Kib_of N u) = s32_of R"
    by (simp add: remainingBytes_s32 r un R_def)
  also have "\<dots> = R"
    using Rb by (intro s32_of_id) simp_all
  finally have "remainingBytes_of N u (req4Kib_of N u) = R" .
  moreover have "R = int (n - (u * 2 ^ 20 + c * 4096))"
    using Rb(1) unfolding R_def by simp
  ultimately show "remainingBytes_of N u (req4Kib_of N u) = int (spec_tail (unat N) u)"
    by (simp add: spec_tail_def c_def n_def)
  from \<open>R = int (n - (u * 2 ^ 20 + c * 4096))\<close> Rb(2)
  show "spec_tail (unat N) u < 4096"
    by (simp add: spec_tail_def c_def n_def)
qed

section \<open>Invariant rules for the two loops\<close>

text \<open>
  To show \<open>Q\<close> of what a loop returns: an invariant \<open>I\<close> of counter and state that
  holds at the start, is kept by a round that goes on, gives \<open>Q\<close> for a round that
  returns early, and gives \<open>Q\<close> when the loop condition fails.
\<close>

lemma chunk_loop_rule:
  assumes "I i s"
    and "\<And>i s. I i s \<Longrightarrow> int i < r \<Longrightarrow> failbit (write_chunk env u i s) \<Longrightarrow>
           Q (Exit SeekOrWriteFailure (abandon env (write_chunk env u i s)))"
    and "\<And>i s. I i s \<Longrightarrow> int i < r \<Longrightarrow> \<not> failbit (write_chunk env u i s) \<Longrightarrow>
           I (Suc i) (write_chunk env u i s)"
    and "\<And>i s. I i s \<Longrightarrow> \<not> int i < r \<Longrightarrow> Q (Next s)"
  shows "Q (chunk_loop env u r i s)"
  using assms
proof (induction env u r i s rule: chunk_loop.induct)
  case (1 env u r i s)
  show ?case
  proof (cases "int i < r")
    case False
    with "1.prems"(1,4) show ?thesis
      by (subst chunk_loop.simps) (simp add: Let_def)
  next
    case True
    show ?thesis
    proof (cases "failbit (write_chunk env u i s)")
      case True
      with \<open>int i < r\<close> "1.prems"(1,2) show ?thesis
        by (subst chunk_loop.simps) (simp add: Let_def)
    next
      case False
      with \<open>int i < r\<close> "1.prems"(1,3) have "I (Suc i) (write_chunk env u i s)"
        by blast
      then have "Q (chunk_loop env u r (i + 1) (write_chunk env u i s))"
        using "1.prems"(2,3,4) by (intro "1.IH" [OF \<open>int i < r\<close> refl False]) auto
      with False \<open>int i < r\<close> show ?thesis
        by (subst chunk_loop.simps) (simp add: Let_def)
    qed
  qed
qed

lemma unit_loop_rule:
  assumes "I i s"
    and "\<And>i s r s'. I i s \<Longrightarrow> int i < m \<Longrightarrow> unit_body env N m i s = Exit r s' \<Longrightarrow> Q (Exit r s')"
    and "\<And>i s s'. I i s \<Longrightarrow> int i < m \<Longrightarrow> unit_body env N m i s = Next s' \<Longrightarrow> I (Suc i) s'"
    and "\<And>i s. I i s \<Longrightarrow> \<not> int i < m \<Longrightarrow> Q (Next s)"
  shows "Q (unit_loop env N m i s)"
  using assms
proof (induction env N m i s rule: unit_loop.induct)
  case (1 env N m i s)
  show ?case
  proof (cases "int i < m")
    case False
    with "1.prems"(1,4) show ?thesis
      by (subst unit_loop.simps) simp
  next
    case True
    show ?thesis
    proof (cases "unit_body env N m i s")
      case (Exit r s')
      with True "1.prems"(1,2) show ?thesis
        by (subst unit_loop.simps) simp
    next
      case (Next s')
      with True "1.prems"(1,3) have "I (Suc i) s'"
        by blast
      then have "Q (unit_loop env N m (i + 1) s')"
        using "1.prems"(2,3,4) by (intro "1.IH" [OF True Next]) auto
      with Next True show ?thesis
        by (subst unit_loop.simps) simp
    qed
  qed
qed

section \<open>How the loops leave the object\<close>

lemmas op_defs = write_chunk_def write_tail_def stream_write_def abandon_def SetError_def
  fs_remove_def stream_close_def publish_def SetFileProgress_def check_cancel_def

lemma chunk_loop_leaves:
  assumes "clean s"
  shows "leaves s (chunk_loop env u r i s)"
proof (rule chunk_loop_rule [where I = "\<lambda>i t. filePath t = filePath s \<and> errored t = errored s \<and> opened t = opened s \<and> clean t"])
  show "filePath s = filePath s \<and> errored s = errored s \<and> opened s = opened s \<and> clean s"
    using assms by simp
qed (auto simp: leaves_def clean_def op_defs split: if_splits)

lemma tail_write_leaves:
  assumes "clean s"
  shows "leaves s (tail_write env N u r s)"
  using assms
  by (auto simp: tail_write_def leaves_def clean_def op_defs Let_def split: if_splits)

lemma leaves_trans:
  "leaves s (Next s1) \<Longrightarrow> leaves s1 res \<Longrightarrow> leaves s res"
  by (auto simp: leaves_def split: flow.splits)

lemma unit_body_leaves:
  assumes "clean s"
  shows "leaves s (unit_body env N m u s)"
proof -
  let ?r = "req4Kib_of N u"
  have c: "leaves s (chunk_loop env u ?r 0 s)"
    using assms by (rule chunk_loop_leaves)
  show ?thesis
  proof (cases "chunk_loop env u ?r 0 s")
    case (Exit r s')
    with c show ?thesis by (simp add: unit_body_def)
  next
    case (Next s1)
    with c have s1: "leaves s (Next s1)" "clean s1"
      by (simp_all add: leaves_def)
    let ?t = "if ?r \<noteq> 256 then tail_write env N u ?r s1 else Next s1"
    have t: "leaves s1 ?t"
      using s1(2) by (simp add: tail_write_leaves) (simp add: leaves_def)
    show ?thesis
    proof (cases ?t)
      case (Exit r s')
      with t s1(1) Next show ?thesis
        using leaves_trans [of s s1 ?t] by (simp add: unit_body_def)
    next
      case n2: (Next s2)
      with t have s2: "leaves s1 (Next s2)" by simp
      have "leaves s2 (check_cancel env u (publish env m u s2))"
        using s2 by (auto simp: leaves_def clean_def op_defs Let_def)
      with s2 s1(1) have "leaves s (check_cancel env u (publish env m u s2))"
        by (blast intro: leaves_trans)
      with Next n2 show ?thesis
        by (simp add: unit_body_def)
    qed
  qed
qed

lemma unit_loop_leaves:
  assumes "clean s"
  shows "leaves s (unit_loop env N m i s)"
proof (rule unit_loop_rule [where I = "\<lambda>i t. leaves s (Next t)"])
  show "leaves s (Next s)" using assms by (simp add: leaves_def)
next
  fix i t r s'
  assume "leaves s (Next t)" "unit_body env N m i t = Exit r s'"
  moreover from this have "leaves t (unit_body env N m i t)"
    by (intro unit_body_leaves) (simp add: leaves_def)
  ultimately show "leaves s (Exit r s')"
    by (metis leaves_trans)
next
  fix i t s'
  assume "leaves s (Next t)" "unit_body env N m i t = Next s'"
  moreover from this have "leaves t (unit_body env N m i t)"
    by (intro unit_body_leaves) (simp add: leaves_def)
  ultimately show "leaves s (Next s')"
    by (metis leaves_trans)
qed simp

section \<open>The branches of \<^verbatim>\<open>WriteImage\<close>\<close>

lemma WriteImage_exists:
  "dsk p \<noteq> None \<Longrightarrow> WriteImage env p N obj dsk = (PathAlreadyExists, SetError (enter obj dsk))"
  by (simp add: WriteImage_def fs_exists_def enter_def)

lemma WriteImage_open_fails:
  "dsk p = None \<Longrightarrow> open_fails env \<Longrightarrow>
     WriteImage env p N obj dsk = (OpenFailure, SetError (fstream_open env p (enter obj dsk)))"
  by (simp add: WriteImage_def fs_exists_def enter_def fstream_open_def)

lemma WriteImage_unsized:
  "dsk p = None \<Longrightarrow> \<not> open_fails env \<Longrightarrow> \<not> sized env N \<Longrightarrow>
     fst (WriteImage env p N obj dsk) = SeekOrWriteFailure \<and>
     errored (snd (WriteImage env p N obj dsk)) \<and>
     disk (snd (WriteImage env p N obj dsk)) (filePath obj) = None \<and>
     last (io_log (snd (WriteImage env p N obj dsk))) = Removed (filePath obj) \<and>
     clean (snd (WriteImage env p N obj dsk))"
  by (auto simp: WriteImage_def fs_exists_def enter_def fstream_open_def sized_def seekp_def
        clean_def op_defs Let_def)

lemma WriteImage_loop:
  "dsk p = None \<Longrightarrow> \<not> open_fails env \<Longrightarrow> sized env N \<Longrightarrow>
     WriteImage env p N obj dsk =
       (case unit_loop env N (WriteImage_reqMiB N) 0 (loop_entry env p N obj dsk) of
          Exit r s' \<Rightarrow> (r, s')
        | Next s' \<Rightarrow> (Completed, stream_close env (stream_flush env s')))"
  by (simp add: WriteImage_def fs_exists_def enter_def fstream_open_def sized_def seekp_def
        loop_entry_def op_defs Let_def)

lemma loop_entry_fields:
  assumes "\<not> open_fails env" "sized env N"
  shows "filePath (loop_entry env p N obj dsk) = filePath obj"
    and "errored (loop_entry env p N obj dsk) = errored obj"
    and "written (loop_entry env p N obj dsk) = written obj"
    and "opened (loop_entry env p N obj dsk) = p"
    and "lastUpdate (loop_entry env p N obj dsk) = now_start env"
    and "emitted (loop_entry env p N obj dsk) = []"
    and "clean (loop_entry env p N obj dsk)"
    and "failbit (loop_entry env p N obj dsk) = rewind_fails env"
    and "\<not> rewind_fails env \<Longrightarrow> pos (loop_entry env p N obj dsk) = 0"
    and "io_log (loop_entry env p N obj dsk) =
           [Created p, Wrote SizeWrite 1] @ (if rewind_fails env then [SeekFailed 0] else [])"
  using assms
  by (simp_all add: loop_entry_def enter_def fstream_open_def sized_def seekp_def
        clean_def op_defs)

text \<open>The definitions to unfold when a run is evaluated on concrete input.\<close>

lemmas run_defs = WriteImage_def enter_def fs_exists_def fstream_open_def seekp_def
  unit_loop.simps unit_body_def chunk_loop.simps tail_write_def
  WriteImage_reqMiB_def req4Kib_of_def remainingBytes_of_def elapsed_ms_def
  stream_flush_def write_at_def content_def buff_def buffsize_def op_defs Let_def

section \<open>Units in which no write fails\<close>

lemma chunk_loop_sound:
  assumes "\<not> failbit s" and "\<forall>i. \<not> chunk_write_fails env u i"
  shows "\<exists>s'. chunk_loop env u r i s = Next s' \<and> \<not> failbit s'"
proof (rule chunk_loop_rule [where I = "\<lambda>i t. \<not> failbit t"])
  show "\<not> failbit s" by fact
qed (use assms(2) in \<open>auto simp: write_chunk_def stream_write_def\<close>)

lemma tail_write_sound:
  assumes "\<not> failbit s" and "\<not> tail_write_fails env u"
  shows "case tail_write env N u r s of Next s' \<Rightarrow> \<not> failbit s' | Exit r s' \<Rightarrow> r = Undefined"
  using assms by (simp add: tail_write_def write_tail_def stream_write_def Let_def)

lemma unit_body_sound:
  assumes "\<not> failbit s" and "\<forall>i. \<not> chunk_write_fails env u i" and "\<not> tail_write_fails env u"
  shows "case unit_body env N m u s of
           Next s' \<Rightarrow> \<not> failbit s' \<and> \<not> canceled_at env u
         | Exit r s' \<Rightarrow> r = Undefined \<or> r = UserCanceled"
proof -
  obtain s1 where s1: "chunk_loop env u (req4Kib_of N u) 0 s = Next s1" "\<not> failbit s1"
    using chunk_loop_sound [OF assms(1,2)] by blast
  show ?thesis
    using s1 tail_write_sound [OF s1(2) assms(3), of N "req4Kib_of N u"]
    by (auto simp: unit_body_def Let_def publish_def SetFileProgress_def check_cancel_def
          split: flow.splits)
qed

lemma unit_loop_cancel:
  assumes "\<not> failbit s" and "i \<le> u" and "int u < m" and "canceled_at env u"
    and "\<forall>v\<le>u. (\<forall>i. \<not> chunk_write_fails env v i) \<and> \<not> tail_write_fails env v"
  shows "\<exists>r s'. unit_loop env N m i s = Exit r s' \<and> (r = Undefined \<or> r = UserCanceled)"
proof (rule unit_loop_rule [where I = "\<lambda>i t. \<not> failbit t \<and> i \<le> u"])
  show "\<not> failbit s \<and> i \<le> u" using assms by simp
next
  fix i and t :: worker and r s'
  assume "\<not> failbit t \<and> i \<le> u" "unit_body env N m i t = Exit r s'"
  with unit_body_sound [of t env i N m] assms(5)
  show "\<exists>ra s'a. Exit r s' = Exit ra s'a \<and> (ra = Undefined \<or> ra = UserCanceled)"
    by auto
next
  fix i and t s' :: worker
  assume a: "\<not> failbit t \<and> i \<le> u" "unit_body env N m i t = Next s'"
  with unit_body_sound [of t env i N m] assms(5) have "\<not> failbit s'" "\<not> canceled_at env i"
    by auto
  with a(1) assms(4) show "\<not> failbit s' \<and> Suc i \<le> u"
    by (cases "i = u") auto
next
  fix i and t :: worker
  assume "\<not> failbit t \<and> i \<le> u" "\<not> int i < m"
  with assms(3) show "\<exists>r s'. Next t = Exit r s' \<and> (r = Undefined \<or> r = UserCanceled)"
    by simp
qed

section \<open>The progress counter along the loop\<close>

lemma chunk_loop_progress: "same_progress s (state_of (chunk_loop env u r i s))"
proof (rule chunk_loop_rule [where I = "\<lambda>i t. same_progress s t"])
  show "same_progress s s" by (simp add: same_progress_def)
qed (auto simp: same_progress_def state_of_def op_defs split: if_splits)

lemma tail_write_progress: "same_progress s (state_of (tail_write env N u r s))"
  by (auto simp: tail_write_def same_progress_def state_of_def op_defs Let_def split: if_splits)

lemma unit_body_progress:
  "\<exists>t. same_progress s t \<and>
     (case unit_body env N m u s of
        Next s' \<Rightarrow> s' = publish env m u t
      | Exit r s' \<Rightarrow> same_progress t s' \<or> same_progress (publish env m u t) s')"
proof -
  let ?r = "req4Kib_of N u"
  show ?thesis
  proof (cases "chunk_loop env u ?r 0 s")
    case (Exit r s')
    with chunk_loop_progress [of s env u ?r 0] show ?thesis
      by (intro exI [where x = s']) (simp add: unit_body_def state_of_def same_progress_def)
  next
    case (Next s1)
    with chunk_loop_progress [of s env u ?r 0] have s1: "same_progress s s1"
      by (simp add: state_of_def)
    let ?t = "if ?r \<noteq> 256 then tail_write env N u ?r s1 else Next s1"
    have t: "same_progress s1 (state_of ?t)"
      using tail_write_progress [of s1 env N u ?r] by (simp add: state_of_def same_progress_def)
    show ?thesis
    proof (cases ?t)
      case (Exit r s')
      with t s1 Next show ?thesis
        by (intro exI [where x = s']) (auto simp: unit_body_def state_of_def same_progress_def)
    next
      case n2: (Next s2)
      with t s1 have "same_progress s s2"
        by (simp add: state_of_def same_progress_def)
      with Next n2 show ?thesis
        by (intro exI [where x = s2])
           (auto simp: unit_body_def same_progress_def check_cancel_def abandon_def SetError_def
              fs_remove_def stream_close_def)
    qed
  qed
qed

lemma counted_cong: "same_progress s t \<Longrightarrow> counted m u t = counted m u s"
  by (simp add: same_progress_def counted_def)

lemma tally_cong: "same_progress s t \<Longrightarrow> tally m t = tally m s"
  by (simp add: same_progress_def tally_def)

lemma counted_tally: "counted m u s \<Longrightarrow> tally m s"
  by (simp add: counted_def tally_def)

lemma counted_publish:
  assumes "counted m u t" and "int u < m"
  shows "counted m (Suc u) (publish env m u t)"
proof -
  have "\<forall>v\<in>set (0 # map snd (emitted t)). v < int u + 1"
    using assms(1) by (auto simp: counted_def)
  then have "sorted_wrt (<) ((0 # map snd (emitted t)) @ [int u + 1])"
    using assms(1) unfolding sorted_wrt_append by (simp add: counted_def)
  then show ?thesis
    using assms by (auto simp: counted_def publish_def SetFileProgress_def Let_def)
qed

lemma unit_body_counted:
  assumes "counted m u s" and "int u < m"
  shows "case unit_body env N m u s of
           Next s' \<Rightarrow> counted m (Suc u) s'
         | Exit r s' \<Rightarrow> tally m s'"
proof -
  obtain t where t: "same_progress s t"
    "case unit_body env N m u s of
        Next s' \<Rightarrow> s' = publish env m u t
      | Exit r s' \<Rightarrow> same_progress t s' \<or> same_progress (publish env m u t) s'"
    using unit_body_progress by blast
  have c: "counted m u t"
    using assms(1) t(1) by (simp add: counted_cong)
  then have p: "counted m (Suc u) (publish env m u t)"
    using assms(2) by (rule counted_publish)
  show ?thesis
    using t(2) c p by (auto split: flow.splits simp: tally_cong dest: counted_tally)
qed

lemma unit_loop_counted:
  assumes "counted m i s"
  shows "case unit_loop env N m i s of
           Next s' \<Rightarrow> tally m s' \<and> (0 < m \<longrightarrow> emitted s' \<noteq> [] \<and> snd (last (emitted s')) = m)
         | Exit r s' \<Rightarrow> tally m s'"
proof (rule unit_loop_rule [where I = "\<lambda>i t. counted m i t"])
  show "counted m i s" by fact
next
  fix i and t :: worker and r s'
  assume "counted m i t" "int i < m" "unit_body env N m i t = Exit r s'"
  with unit_body_counted [of m i t env N]
  show "case Exit r s' of
          Next s' \<Rightarrow> tally m s' \<and> (0 < m \<longrightarrow> emitted s' \<noteq> [] \<and> snd (last (emitted s')) = m)
        | Exit r s' \<Rightarrow> tally m s'"
    by simp
next
  fix i and t s' :: worker
  assume "counted m i t" "int i < m" "unit_body env N m i t = Next s'"
  with unit_body_counted [of m i t env N] show "counted m (Suc i) s'"
    by simp
next
  fix i and t :: worker
  assume "counted m i t" "\<not> int i < m"
  then show "case Next t of
          Next s' \<Rightarrow> tally m s' \<and> (0 < m \<longrightarrow> emitted s' \<noteq> [] \<and> snd (last (emitted s')) = m)
        | Exit r s' \<Rightarrow> tally m s'"
    by (auto simp: counted_def tally_def)
qed

lemma count_last_strict:
  fixes xs :: "int list"
  assumes "sorted_wrt (<) xs" and "xs \<noteq> []"
  shows "count_list xs (last xs) = 1"
proof -
  obtain ys x where xs: "xs = ys @ [x]"
    using assms(2) by (metis append_butlast_last_id)
  with assms(1) have "\<forall>y\<in>set ys. y < x"
    by (simp add: sorted_wrt_append)
  then have "x \<notin> set ys"
    by auto
  then show ?thesis
    by (simp add: xs)
qed

lemma ceil_MiB_pos: "0 < n \<Longrightarrow> 0 < \<lceil>real n / 2 ^ 20\<rceil>"
  by (simp add: ceil_MiB pos_imp_zdiv_pos_iff)

lemma early_return_progress:
  assumes "\<not> (dsk p = None \<and> \<not> open_fails env \<and> sized env N)"
  shows "emitted (snd (WriteImage env p N obj dsk)) = [] \<and>
         written (snd (WriteImage env p N obj dsk)) = written obj \<and>
         fst (WriteImage env p N obj dsk) \<noteq> Completed"
proof (cases "dsk p = None")
  case False
  then show ?thesis
    by (simp add: WriteImage_exists SetError_def enter_def)
next
  case free: True
  show ?thesis
  proof (cases "open_fails env")
    case True
    with free show ?thesis
      by (simp add: WriteImage_open_fails SetError_def enter_def fstream_open_def)
  next
    case False
    with free assms have "\<not> sized env N"
      by simp
    with free False show ?thesis
      by (auto simp: WriteImage_def fs_exists_def enter_def fstream_open_def sized_def seekp_def
            op_defs Let_def)
  qed
qed

lemma loop_exit_kinds:
  assumes "clean s" and "unit_loop env N m i s = Exit r s'"
  shows "r = SeekOrWriteFailure \<or> r = UserCanceled \<or> r = Undefined"
  using unit_loop_leaves [OF assms(1), of env N m i] assms(2) by (auto simp: leaves_def)

section \<open>The throttle along the loop\<close>

lemma elapsed_ms_100: "100 \<le> elapsed_ms now earlier \<longleftrightarrow> 100000000 \<le> now - earlier"
proof (cases "0 \<le> now - earlier")
  case True
  then have "elapsed_ms now earlier = (now - earlier) div 1000000"
    by (simp add: elapsed_ms_def signed_divide_int_def sgn_if)
  moreover have "100 \<le> (now - earlier) div 1000000 \<longleftrightarrow> 100000000 \<le> now - earlier"
    by linarith
  ultimately show ?thesis
    by simp
next
  case False
  then have "elapsed_ms now earlier \<le> 0"
    by (simp add: elapsed_ms_def signed_divide_int_def sgn_if pos_imp_zdiv_nonneg_iff)
  with False show ?thesis
    by simp
qed

lemma paced_cong: "same_progress s t \<Longrightarrow> paced m u t = paced m u s"
  by (simp add: same_progress_def paced_def)

lemma paced_publish:
  assumes "paced m u t" and "int u < m"
  shows "paced m (Suc u) (publish env m u t)"
proof (cases "100 \<le> elapsed_ms (now_at env u) (lastUpdate t)")
  case True
  then have "100000000 \<le> now_at env u - lastUpdate t"
    by (simp add: elapsed_ms_100)
  moreover have "\<forall>e\<in>set (emitted t). fst e \<le> lastUpdate t"
    using assms by (simp add: paced_def)
  ultimately have "\<forall>e\<in>set (emitted t). 100000000 \<le> now_at env u - fst e"
    by fastforce
  then show ?thesis
    using assms True
    by (auto simp: paced_def publish_def SetFileProgress_def Let_def sorted_wrt_append spaced_def)
next
  case False
  then show ?thesis
    using assms
    by (auto simp: paced_def publish_def SetFileProgress_def Let_def sorted_wrt_append spaced_def)
qed

lemma unit_body_paced:
  assumes "paced m u s" and "int u < m"
  shows "case unit_body env N m u s of
           Next s' \<Rightarrow> paced m (Suc u) s'
         | Exit r s' \<Rightarrow> sorted_wrt (spaced m) (emitted s')"
proof -
  obtain t where t: "same_progress s t"
    "case unit_body env N m u s of
        Next s' \<Rightarrow> s' = publish env m u t
      | Exit r s' \<Rightarrow> same_progress t s' \<or> same_progress (publish env m u t) s'"
    using unit_body_progress by blast
  have c: "paced m u t"
    using assms(1) t(1) by (simp add: paced_cong)
  then have p: "paced m (Suc u) (publish env m u t)"
    using assms(2) by (rule paced_publish)
  show ?thesis
    using t(2) c p by (auto split: flow.splits simp: paced_def same_progress_def)
qed

lemma unit_loop_paced:
  assumes "paced m i s"
  shows "sorted_wrt (spaced m) (emitted (state_of (unit_loop env N m i s)))"
proof (rule unit_loop_rule [where I = "\<lambda>i t. paced m i t"])
  show "paced m i s" by fact
next
  fix i and t :: worker and r s'
  assume "paced m i t" "int i < m" "unit_body env N m i t = Exit r s'"
  with unit_body_paced [of m i t env N]
  show "sorted_wrt (spaced m) (emitted (state_of (Exit r s')))"
    by (simp add: state_of_def)
next
  fix i and t s' :: worker
  assume "paced m i t" "int i < m" "unit_body env N m i t = Next s'"
  with unit_body_paced [of m i t env N] show "paced m (Suc i) s'"
    by simp
next
  fix i and t :: worker
  assume "paced m i t" "\<not> int i < m"
  then show "sorted_wrt (spaced m) (emitted (state_of (Next t)))"
    by (simp add: paced_def state_of_def)
qed

section \<open>Zero bytes written over zero bytes\<close>

lemma moved_fields [simp]:
  "filePath (moved k evs s) = filePath s" "written (moved k evs s) = written s"
  "errored (moved k evs s) = errored s" "lastUpdate (moved k evs s) = lastUpdate s"
  "disk (moved k evs s) = disk s" "opened (moved k evs s) = opened s"
  "pos (moved k evs s) = pos s + k" "failbit (moved k evs s) = failbit s"
  "io_log (moved k evs s) = io_log s @ evs" "emitted (moved k evs s) = emitted s"
  by (simp_all add: moved_def)

lemma moved_moved: "moved k evs (moved j ws s) = moved (j + k) (ws @ evs) s"
  by (simp add: moved_def add.assoc)

lemma moved_nothing: "moved 0 [] s = s"
  by (simp add: moved_def)

lemma publish_fields [simp]:
  "filePath (publish env m u s) = filePath s" "errored (publish env m u s) = errored s"
  "disk (publish env m u s) = disk s" "opened (publish env m u s) = opened s"
  "pos (publish env m u s) = pos s" "failbit (publish env m u s) = failbit s"
  "io_log (publish env m u s) = io_log s"
  by (simp_all add: publish_def SetFileProgress_def Let_def)

lemma zeroed_moved [simp]: "zeroed n p (moved k evs s) = zeroed n p s"
  by (simp add: zeroed_def)

lemma zeroed_publish [simp]: "zeroed n p (publish env m u s) = zeroed n p s"
  by (simp add: zeroed_def)

lemma write_at_zeros: "p + k \<le> n \<Longrightarrow> write_at (replicate n 0) p (replicate k 0) = replicate n 0"
  by (simp add: write_at_def min_def flip: replicate_add)

lemma stream_write_zeros:
  assumes "zeroed n p s" and "\<not> failbit (stream_write fails call (replicate k 0) s)"
    and "pos s + k \<le> n"
  shows "stream_write fails call (replicate k 0) s = moved k [Wrote call k] s"
proof -
  from assms(2) have "\<not> failbit s" "\<not> fails"
    by (auto simp: stream_write_def split: if_splits)
  moreover have "content s = replicate n 0" "(disk s)(opened s \<mapsto> replicate n 0) = disk s"
    using assms(1) by (auto simp: zeroed_def content_def)
  ultimately show ?thesis
    using assms(3) by (simp add: stream_write_def write_at_zeros moved_def)
qed

lemma chunk_writes_Suc: "chunk_writes u (Suc j) = chunk_writes u j @ [Wrote (ChunkWrite u j) 4096]"
  by (simp add: chunk_writes_def)

lemma chunk_loop_zeroed:
  assumes z: "zeroed (unat N) p s" and p: "failbit s \<or> int (pos s) \<le> int u * 1048576"
    and u: "int u < WriteImage_reqMiB N" and r: "r = req4Kib_of N u"
    and n: "chunk_loop env u r 0 s = Next t"
  shows "t = moved (nat r * 4096) (chunk_writes u (nat r)) s \<and> (0 < r \<longrightarrow> \<not> failbit s)"
proof -
  let ?I = "\<lambda>j t. t = moved (j * 4096) (chunk_writes u j) s \<and> int j \<le> max 0 r \<and> (0 < j \<longrightarrow> \<not> failbit s)"
  let ?Q = "\<lambda>res. \<forall>t. res = Next t \<longrightarrow>
      t = moved (nat r * 4096) (chunk_writes u (nat r)) s \<and> (0 < r \<longrightarrow> \<not> failbit s)"
  have "?Q (chunk_loop env u r 0 s)"
  proof (rule chunk_loop_rule [where I = ?I])
    show "?I 0 s"
      by (simp add: chunk_writes_def moved_nothing)
  next
    fix j and t :: worker
    assume I: "?I j t" and j: "int j < r" and ok: "\<not> failbit (write_chunk env u j t)"
    from ok have "\<not> failbit t"
      by (auto simp: write_chunk_def stream_write_def split: if_splits)
    with I have s: "\<not> failbit s" "pos t = pos s + j * 4096" "zeroed (unat N) p t"
      using z by simp_all
    have "0 < req4Kib_of N u"
      using j r by simp
    then have "int u * 1048576 + req4Kib_of N u * 4096 \<le> uint N"
      by (rule chunks_below_size [OF u])
    then have a: "int u * 1048576 + r * 4096 \<le> int (unat N)"
      unfolding r by (simp only: uint_nat)
    have "int (pos t) = int (pos s) + int j * 4096"
      using s by simp
    with a p s(1) j have "int (pos t) + 4096 \<le> int (unat N)"
      by linarith
    then have "pos t + 4096 \<le> unat N"
      by linarith
    moreover have "write_chunk env u j t =
        stream_write (chunk_write_fails env u j) (ChunkWrite u j) (replicate 4096 0) t"
      by (simp add: write_chunk_def buff_def buffsize_def)
    ultimately have "write_chunk env u j t = moved 4096 [Wrote (ChunkWrite u j) 4096] t"
      using s(3) ok
        stream_write_zeros [of "unat N" p t "chunk_write_fails env u j" "ChunkWrite u j" 4096]
      by simp
    with I j s(1) show "?I (Suc j) (write_chunk env u j t)"
      by (simp add: moved_moved chunk_writes_Suc)
  next
    fix j and t :: worker
    assume I: "?I j t" and j: "\<not> int j < r"
    then have "j = nat r"
      by linarith
    with I show "?Q (Next t)"
      by auto
  qed simp
  with n show ?thesis
    by simp
qed

lemma tail_write_zeroed:
  assumes z: "zeroed (unat N) p t"
    and p: "int (pos t) \<le> int u * 1048576 + max 0 r * 4096"
    and u: "int u < WriteImage_reqMiB N" and r: "r = req4Kib_of N u"
    and n: "tail_write env N u r t = Next t'"
  shows "\<not> failbit t \<and> 0 \<le> remainingBytes_of N u r \<and> remainingBytes_of N u r \<le> 4096 \<and>
         t' = moved (nat (remainingBytes_of N u r))
                [Wrote (TailWrite u) (nat (remainingBytes_of N u r))] t"
proof -
  let ?rem = "remainingBytes_of N u r"
  from n have b: "0 \<le> ?rem" "?rem \<le> 4096" and ok: "\<not> failbit (write_tail env u ?rem t)"
    and t': "t' = write_tail env u ?rem t"
    by (auto simp: tail_write_def Let_def buffsize_def split: if_splits)
  from ok have nf: "\<not> failbit t"
    by (auto simp: write_tail_def stream_write_def split: if_splits)
  have "int u * 1048576 + max 0 r * 4096 + ?rem \<le> uint N"
    using tail_below_size [OF u] b unfolding r by simp
  then have "int u * 1048576 + max 0 r * 4096 + ?rem \<le> int (unat N)"
    by (simp only: uint_nat)
  with p b have "pos t + nat ?rem \<le> unat N"
    by linarith
  moreover have "write_tail env u ?rem t =
      stream_write (tail_write_fails env u) (TailWrite u) (replicate (nat ?rem) 0) t"
    using b by (simp add: write_tail_def buff_def buffsize_def min_def)
  ultimately have "write_tail env u ?rem t = moved (nat ?rem) [Wrote (TailWrite u) (nat ?rem)] t"
    using z ok stream_write_zeros [of "unat N" p t "tail_write_fails env u" "TailWrite u" "nat ?rem"]
    by simp
  with nf b show ?thesis
    by (simp add: t')
qed

lemma unit_body_zeroed:
  assumes z: "zeroed (unat N) p s" and p: "failbit s \<or> int (pos s) \<le> int u * 1048576"
    and u: "int u < WriteImage_reqMiB N" and n: "unit_body env N m u s = Next s'"
  shows "\<not> failbit s \<and> \<not> canceled_at env u \<and> unit_bytes N u \<le> 1048576 \<and>
         s' = unit_step env N m u s"
proof -
  let ?r = "req4Kib_of N u"
  from n obtain s1 s2 where s1: "chunk_loop env u ?r 0 s = Next s1"
    and s2: "(if ?r \<noteq> 256 then tail_write env N u ?r s1 else Next s1) = Next s2"
    and s': "s' = publish env m u s2" and nc: "\<not> canceled_at env u"
    by (auto simp: unit_body_def Let_def check_cancel_def split: flow.splits if_splits)
  from chunk_loop_zeroed [OF z p u refl s1]
  have c: "s1 = moved (nat ?r * 4096) (chunk_writes u (nat ?r)) s" "0 < ?r \<longrightarrow> \<not> failbit s"
    by simp_all
  have le: "?r \<le> 256"
    by (rule req4Kib_le)
  have "\<not> failbit s \<and> unit_bytes N u \<le> 1048576 \<and>
        s2 = moved (unit_bytes N u) (unit_writes N u) s"
  proof (cases "?r = 256")
    case True
    with s2 c show ?thesis
      by (simp add: unit_bytes_def unit_writes_def)
  next
    case False
    with s2 have t: "tail_write env N u ?r s1 = Next s2"
      by simp
    have z1: "zeroed (unat N) p s1"
      using z by (simp add: c(1))
    have nf: "\<not> failbit s1"
      using t by (auto simp: tail_write_def write_tail_def stream_write_def Let_def split: if_splits)
    then have nfs: "\<not> failbit s"
      by (simp add: c(1))
    with p have "int (pos s1) \<le> int u * 1048576 + max 0 ?r * 4096"
      by (simp add: c(1) max_def)
    from tail_write_zeroed [OF z1 this u refl t]
    have b: "0 \<le> remainingBytes_of N u ?r" "remainingBytes_of N u ?r \<le> 4096"
      and e: "s2 = moved (nat (remainingBytes_of N u ?r))
                [Wrote (TailWrite u) (nat (remainingBytes_of N u ?r))] s1"
      by simp_all
    have "nat ?r * 4096 + nat (remainingBytes_of N u ?r) \<le> 1048576"
      using b le False by linarith
    with e nfs False show ?thesis
      by (simp add: c(1) moved_moved unit_bytes_def unit_writes_def)
  qed
  with nc show ?thesis
    by (simp add: s' unit_step_def)
qed


lemma unit_step_fields [simp]:
  "filePath (unit_step env N m u s) = filePath s" "errored (unit_step env N m u s) = errored s"
  "disk (unit_step env N m u s) = disk s" "opened (unit_step env N m u s) = opened s"
  "pos (unit_step env N m u s) = pos s + unit_bytes N u"
  "failbit (unit_step env N m u s) = failbit s"
  "io_log (unit_step env N m u s) = io_log s @ unit_writes N u"
  by (simp_all add: unit_step_def)

lemma fold_unit_step_fields [simp]:
  "filePath (fold (unit_step env N m) us s) = filePath s"
  "errored (fold (unit_step env N m) us s) = errored s"
  "disk (fold (unit_step env N m) us s) = disk s"
  "opened (fold (unit_step env N m) us s) = opened s"
  "failbit (fold (unit_step env N m) us s) = failbit s"
  "io_log (fold (unit_step env N m) us s) = io_log s @ concat (map (unit_writes N) us)"
  by (induction us arbitrary: s) simp_all

lemma unit_loop_zeroed:
  assumes z: "zeroed (unat N) p s" and p: "failbit s \<or> pos s = 0"
    and n: "unit_loop env N (WriteImage_reqMiB N) 0 s = Next s'"
  shows "s' = fold (unit_step env N (WriteImage_reqMiB N)) [0..<nat (WriteImage_reqMiB N)] s"
proof -
  let ?m = "WriteImage_reqMiB N"
  let ?I = "\<lambda>i t. t = fold (unit_step env N ?m) [0..<i] s \<and> int i \<le> max 0 ?m \<and>
      (failbit t \<or> int (pos t) \<le> int i * 1048576)"
  let ?Q = "\<lambda>res. \<forall>t. res = Next t \<longrightarrow> t = fold (unit_step env N ?m) [0..<nat ?m] s"
  have "?Q (unit_loop env N ?m 0 s)"
  proof (rule unit_loop_rule [where I = ?I])
    show "?I 0 s"
      using p by auto
  next
    fix i and t t' :: worker
    assume I: "?I i t" and i: "int i < ?m" and b: "unit_body env N ?m i t = Next t'"
    from I z have "zeroed (unat N) p t"
      by (simp add: zeroed_def)
    moreover from I have "failbit t \<or> int (pos t) \<le> int i * 1048576"
      by blast
    ultimately have "\<not> failbit t \<and> \<not> canceled_at env i \<and> unit_bytes N i \<le> 1048576 \<and>
        t' = unit_step env N ?m i t"
      using i b by (rule unit_body_zeroed)
    then have st: "\<not> failbit t" "unit_bytes N i \<le> 1048576" "t' = unit_step env N ?m i t"
      by simp_all
    from I have e: "t = fold (unit_step env N ?m) [0..<i] s"
      by blast
    from I st(1) have pt: "int (pos t) \<le> int i * 1048576"
      by blast
    have "t' = fold (unit_step env N ?m) [0..<Suc i] s"
      unfolding st(3) by (subst e) simp
    moreover have "int (Suc i) \<le> max 0 ?m"
      using i by simp
    moreover have "int (pos t') \<le> int (Suc i) * 1048576"
      using pt st(2) unfolding st(3) by simp
    ultimately show "?I (Suc i) t'"
      by blast
  next
    fix i and t :: worker
    assume I: "?I i t" and i: "\<not> int i < ?m"
    then have "i = nat ?m"
      by linarith
    with I show "?Q (Next t)"
      by simp
  qed simp
  with n show ?thesis
    by simp
qed

lemma loop_entry_zeroed:
  assumes "\<not> open_fails env" and "sized env N"
  shows "zeroed (unat N) p (loop_entry env p N obj dsk)"
    and "failbit (loop_entry env p N obj dsk) \<or> pos (loop_entry env p N obj dsk) = 0"
proof -
  have s: "0 \<le> sint (N - 1)"
    using assms(2) by (simp add: sized_def)
  have "replicate (nat (sint (N - 1))) (0 :: u8) @ [0] = replicate (Suc (nat (sint (N - 1)))) 0"
    by (simp add: replicate_append_same)
  also have "\<dots> = replicate (unat N) 0"
    by (simp only: nat_sint_pred [OF s])
  finally have "write_at [] (nat (sint (N - 1))) [0 :: u8] = replicate (unat N) 0"
    by (simp add: write_at_def)
  then show "zeroed (unat N) p (loop_entry env p N obj dsk)"
    using assms s
    by (simp add: zeroed_def loop_entry_def enter_def fstream_open_def sized_def seekp_def
          stream_write_def content_def)
  show "failbit (loop_entry env p N obj dsk) \<or> pos (loop_entry env p N obj dsk) = 0"
    using assms s
    by (simp add: loop_entry_def enter_def fstream_open_def sized_def seekp_def stream_write_def)
qed

lemma Completed_branch:
  assumes "fst (WriteImage env p N obj dsk) = Completed"
  shows "dsk p = None \<and> \<not> open_fails env \<and> sized env N"
  using assms early_return_progress [of dsk p env N obj] by blast

lemma Completed_run:
  assumes "fst (WriteImage env p N obj dsk) = Completed"
  shows "snd (WriteImage env p N obj dsk) =
           stream_close env (stream_flush env
             (fold (unit_step env N (WriteImage_reqMiB N)) [0..<nat (WriteImage_reqMiB N)]
                (loop_entry env p N obj dsk)))"
proof -
  let ?s = "loop_entry env p N obj dsk"
  have b: "dsk p = None" "\<not> open_fails env" "sized env N"
    using Completed_branch [OF assms] by simp_all
  have w: "WriteImage env p N obj dsk =
       (case unit_loop env N (WriteImage_reqMiB N) 0 ?s of
          Exit r s' \<Rightarrow> (r, s')
        | Next s' \<Rightarrow> (Completed, stream_close env (stream_flush env s')))"
    using b by (rule WriteImage_loop)
  have "clean ?s"
    using b by (simp add: loop_entry_fields)
  with assms w obtain s' where n: "unit_loop env N (WriteImage_reqMiB N) 0 ?s = Next s'"
    using loop_exit_kinds [of ?s env N "WriteImage_reqMiB N" 0]
    by (cases "unit_loop env N (WriteImage_reqMiB N) 0 ?s") auto
  from unit_loop_zeroed [OF loop_entry_zeroed [OF b(2,3)] n] show ?thesis
    by (simp add: w n)
qed

section \<open>Runs in which nothing fails\<close>

lemma unit_writes_in_range:
  assumes "unat N < 2 ^ 41" and "int u < WriteImage_reqMiB N"
  shows "unit_writes N u = spec_unit_writes (unat N) u"
proof -
  have r: "req4Kib_of N u = int (spec_chunks (unat N) u)"
    using assms by (rule req4Kib_in_range)
  have le: "spec_chunks (unat N) u \<le> 256"
    by (simp add: spec_chunks_def)
  show ?thesis
  proof (cases "spec_chunks (unat N) u < 256")
    case True
    from remainingBytes_in_range(1) [OF assms True] True r show ?thesis
      by (simp add: unit_writes_def spec_unit_writes_def chunk_writes_def)
  next
    case False
    with le have "spec_chunks (unat N) u = 256"
      by simp
    with r show ?thesis
      by (simp add: unit_writes_def spec_unit_writes_def chunk_writes_def)
  qed
qed

lemma tail_write_defined:
  assumes "unat N < 2 ^ 41" and "int u < WriteImage_reqMiB N" and "req4Kib_of N u \<noteq> 256"
  shows "tail_write env N u (req4Kib_of N u) t \<noteq> Exit Undefined t'"
proof -
  have r: "req4Kib_of N u = int (spec_chunks (unat N) u)"
    using assms(1,2) by (rule req4Kib_in_range)
  have "spec_chunks (unat N) u \<le> 256"
    by (simp add: spec_chunks_def)
  with r assms(3) have c: "spec_chunks (unat N) u < 256"
    by linarith
  have "remainingBytes_of N u (req4Kib_of N u) = int (spec_tail (unat N) u)"
    "spec_tail (unat N) u < 4096"
    using remainingBytes_in_range [OF assms(1,2) c] by simp_all
  moreover have "0 \<le> req4Kib_of N u * 4096" "req4Kib_of N u * 4096 < 2147483648"
    using r c by simp_all
  ultimately show ?thesis
    by (simp add: tail_write_def Let_def buffsize_def)
qed

lemma chunk_loop_exit_kind:
  "chunk_loop env u r i s = Exit x t \<Longrightarrow> x = SeekOrWriteFailure"
proof -
  have "\<forall>x t. chunk_loop env u r i s = Exit x t \<longrightarrow> x = SeekOrWriteFailure"
    by (rule chunk_loop_rule [where I = "\<lambda>i t. True"]) simp_all
  then show "chunk_loop env u r i s = Exit x t \<Longrightarrow> x = SeekOrWriteFailure"
    by blast
qed

lemma unit_body_defined:
  assumes "unat N < 2 ^ 41" and "int u < WriteImage_reqMiB N"
  shows "unit_body env N m u s \<noteq> Exit Undefined s'"
proof
  assume e: "unit_body env N m u s = Exit Undefined s'"
  let ?r = "req4Kib_of N u"
  show False
  proof (cases "chunk_loop env u ?r 0 s")
    case (Exit x t)
    with e chunk_loop_exit_kind [OF Exit] show False
      by (simp add: unit_body_def)
  next
    case (Next s1)
    show False
    proof (cases "?r = 256")
      case True
      with e Next show False
        by (simp add: unit_body_def check_cancel_def split: if_splits)
    next
      case False
      with e Next tail_write_defined [OF assms False, of env s1] show False
        by (auto simp: unit_body_def check_cancel_def split: flow.splits if_splits)
    qed
  qed
qed

lemma unit_loop_defined:
  assumes "unat N < 2 ^ 41"
  shows "unit_loop env N (WriteImage_reqMiB N) i s \<noteq> Exit Undefined s'"
proof -
  have "\<forall>t. unit_loop env N (WriteImage_reqMiB N) i s \<noteq> Exit Undefined t"
  proof (rule unit_loop_rule [where I = "\<lambda>i t. True"])
    fix i and t :: worker and r s'
    assume "int i < WriteImage_reqMiB N" "unit_body env N (WriteImage_reqMiB N) i t = Exit r s'"
    with unit_body_defined [OF assms, of i env "WriteImage_reqMiB N" t s']
    show "\<forall>t. Exit r s' \<noteq> Exit Undefined t"
      by auto
  qed simp_all
  then show ?thesis
    by blast
qed

lemma unit_loop_succeeds:
  assumes "\<not> failbit s" and "unat N < 2 ^ 41"
    and "\<forall>u i. \<not> chunk_write_fails env u i" and "\<forall>u. \<not> tail_write_fails env u"
    and "\<forall>u. \<not> canceled_at env u"
  shows "\<exists>s'. unit_loop env N (WriteImage_reqMiB N) i s = Next s'"
proof (rule unit_loop_rule [where I = "\<lambda>i t. \<not> failbit t"])
  show "\<not> failbit s" by fact
next
  fix i and t :: worker and r s'
  assume "\<not> failbit t" and i: "int i < WriteImage_reqMiB N"
    and e: "unit_body env N (WriteImage_reqMiB N) i t = Exit r s'"
  with unit_body_sound [of t env i N "WriteImage_reqMiB N"] assms(3,4)
  have "r = Undefined \<or> r = UserCanceled"
    by simp
  moreover have "r \<noteq> Undefined"
    using unit_body_defined [OF assms(2) i] e by blast
  moreover have "r \<noteq> UserCanceled"
  proof
    assume "r = UserCanceled"
    with e assms(5) show False
      by (auto simp: unit_body_def check_cancel_def tail_write_def Let_def
            dest: chunk_loop_exit_kind split: flow.splits if_splits)
  qed
  ultimately show "\<exists>s'a. Exit r s' = Next s'a"
    by blast
next
  fix i and t s' :: worker
  assume "\<not> failbit t" "unit_body env N (WriteImage_reqMiB N) i t = Next s'"
  with unit_body_sound [of t env i N "WriteImage_reqMiB N"] assms(3,4) show "\<not> failbit s'"
    by simp
qed simp

lemma obliging_run:
  assumes "0 < unat N" and "unat N < 2 ^ 41" and "dsk p = None" and "obliging env"
  shows "WriteImage env p N obj dsk =
           (Completed, stream_close env (stream_flush env
              (fold (unit_step env N (WriteImage_reqMiB N)) [0..<nat (WriteImage_reqMiB N)]
                 (loop_entry env p N obj dsk))))"
proof -
  let ?s = "loop_entry env p N obj dsk"
  have o: "\<not> open_fails env" and z: "sized env N"
    using assms(1,2,4) by (simp_all add: obliging_def sized_iff)
  have "\<not> failbit ?s"
    using o z assms(4) by (simp add: loop_entry_fields obliging_def)
  then obtain s' where n: "unit_loop env N (WriteImage_reqMiB N) 0 ?s = Next s'"
    using unit_loop_succeeds [of ?s N env 0] assms(2,4) by (auto simp: obliging_def)
  then have c: "fst (WriteImage env p N obj dsk) = Completed"
    by (simp add: WriteImage_loop [of dsk p, OF assms(3) o z])
  then have "WriteImage env p N obj dsk = (Completed, snd (WriteImage env p N obj dsk))"
    by (metis prod.collapse)
  then show ?thesis
    by (simp only: Completed_run [OF c])
qed

lemma obliging_quiet: "obliging quiet"
  by (simp add: obliging_def quiet_def)

lemma obliging_ticking: "obliging ticking"
  by (simp add: obliging_def quiet_def ticking_def)

lemma upt_4: "[0..<4] = [0, 1, 2, Suc 2]"
  by (simp add: upt_rec)

lemma upt_2: "[0..<2] = [0, Suc 0]"
  by (simp add: upt_rec)

lemma ticking_run:
  "WriteImage ticking ''hdd.raw'' 1048586 (fresh ''hdd.raw'') Map.empty =
     (Completed, stream_close ticking (stream_flush ticking
        (fold (unit_step ticking 1048586 2) [0, Suc 0]
           (loop_entry ticking ''hdd.raw'' 1048586 (fresh ''hdd.raw'') Map.empty))))"
proof -
  have "WriteImage_reqMiB 1048586 = 2"
    by (simp add: WriteImage_reqMiB_def)
  then show ?thesis
    by (subst obliging_run) (simp_all add: obliging_ticking upt_2)
qed

lemma ticking_emitted:
  "emitted (snd (WriteImage ticking ''hdd.raw'' 1048586 (fresh ''hdd.raw'') Map.empty)) =
     [(150000000, 1), (160000000, 2)]"
  "written (snd (WriteImage ticking ''hdd.raw'' 1048586 (fresh ''hdd.raw'') Map.empty)) = 2"
proof -
  have s: "sized ticking 1048586" "\<not> open_fails ticking"
    by (simp_all add: sized_iff ticking_def quiet_def)
  show "emitted (snd (WriteImage ticking ''hdd.raw'' 1048586 (fresh ''hdd.raw'') Map.empty)) =
     [(150000000, 1), (160000000, 2)]"
    "written (snd (WriteImage ticking ''hdd.raw'' 1048586 (fresh ''hdd.raw'') Map.empty)) = 2"
    using s
    by (simp_all add: ticking_run unit_step_def publish_def SetFileProgress_def elapsed_ms_def
          stream_close_def stream_flush_def loop_entry_fields Let_def)
       (simp_all add: ticking_def quiet_def)
qed

section \<open>The two unit counts\<close>

text \<open>
  Claim C7, as amended. \<^verbatim>\<open>Start\<close> and \<^verbatim>\<open>WriteImage\<close> compute the same number of
  units for every 64-bit size, and for every size of at most \<open>(2 ^ 31 - 1) * 2 ^ 20\<close>
  bytes that number is the size divided by one MiB, rounded up.
\<close>

theorem reqMiB_agree_and_ceiling:
  "Start_reqMiB N = WriteImage_reqMiB N \<and>
   (unat N \<le> (2 ^ 31 - 1) * 2 ^ 20 \<longrightarrow>
      WriteImage_reqMiB N = \<lceil>real (unat N) / 2 ^ 20\<rceil>)"
  using reqMiB_in_range by (simp add: Start_reqMiB_def WriteImage_reqMiB_def)

theorem reqMiB_agree_and_ceiling_witness:
  "Start_reqMiB 3145738 = WriteImage_reqMiB 3145738 \<and>
   unat (3145738 :: u64) \<le> (2 ^ 31 - 1) * 2 ^ 20 \<and> WriteImage_reqMiB 3145738 = 4"
  using reqMiB_agree_and_ceiling [of 3145738] by simp

text \<open>
  C7 as stated fails for large sizes: for \<open>2 ^ 64 - 1\<close> bytes the sum
  \<^verbatim>\<open>reqSizeBytes + ((1024 * 1024) - 1)\<close> wraps and both counts are 0, not \<open>2 ^ 44\<close>.
\<close>

theorem reqMiB_wraps_counterexample:
  "0 < unat (2 ^ 64 - 1 :: u64) \<and>
   Start_reqMiB (2 ^ 64 - 1) = 0 \<and> WriteImage_reqMiB (2 ^ 64 - 1) = 0 \<and>
   \<lceil>real (unat (2 ^ 64 - 1 :: u64)) / 2 ^ 20\<rceil> = 17592186044416 \<and>
   WriteImage_reqMiB (2 ^ 64 - 1) \<noteq> \<lceil>real (unat (2 ^ 64 - 1 :: u64)) / 2 ^ 20\<rceil>"
  by (simp add: WriteImage_reqMiB_def Start_reqMiB_def)

section \<open>A destination that already exists\<close>

text \<open>
  Claim C3. When the destination path exists at the start, \<^verbatim>\<open>WriteImage\<close> leaves at
  its first \<^verbatim>\<open>return\<close> with the error latch set; the disk is what it was and no
  file operation was carried out: nothing created, written or removed.
\<close>

theorem existing_path_rejected:
  "dsk hddPath \<noteq> None \<Longrightarrow>
     fst (WriteImage env hddPath N obj dsk) = PathAlreadyExists \<and>
     errored (snd (WriteImage env hddPath N obj dsk)) \<and>
     disk (snd (WriteImage env hddPath N obj dsk)) = dsk \<and>
     io_log (snd (WriteImage env hddPath N obj dsk)) = []"
  by (simp add: WriteImage_def enter_def fs_exists_def SetError_def)

theorem existing_path_rejected_witness:
  "[''hdd.raw'' \<mapsto> [1, 2, 3 :: u8]] ''hdd.raw'' \<noteq> None \<and>
   fst (WriteImage quiet ''hdd.raw'' 10 (fresh ''hdd.raw'') [''hdd.raw'' \<mapsto> [1, 2, 3]])
     = PathAlreadyExists \<and>
   errored (snd (WriteImage quiet ''hdd.raw'' 10 (fresh ''hdd.raw'') [''hdd.raw'' \<mapsto> [1, 2, 3]])) \<and>
   disk (snd (WriteImage quiet ''hdd.raw'' 10 (fresh ''hdd.raw'') [''hdd.raw'' \<mapsto> [1, 2, 3]]))
     = [''hdd.raw'' \<mapsto> [1, 2, 3]] \<and>
   io_log (snd (WriteImage quiet ''hdd.raw'' 10 (fresh ''hdd.raw'') [''hdd.raw'' \<mapsto> [1, 2, 3]])) = []"
  using existing_path_rejected
    [of "[''hdd.raw'' \<mapsto> [1, 2, 3]]" "''hdd.raw''" quiet 10 "fresh ''hdd.raw''"]
  by simp

section \<open>A request for zero bytes\<close>

text \<open>
  Claim C10. For a size of 0 the offset of the sizing seek is \<open>0 - 1\<close> in \<^verbatim>\<open>u64\<close>,
  which is \<open>- 1\<close> as a stream offset. If the path is free and the file opens, the
  worker creates the file, the seek fails, the write after it does nothing, and
  the worker removes the file and sets the error latch.
\<close>

theorem zero_size_request_fails:
  assumes "dsk hddPath = None" and "\<not> open_fails env" and "filePath obj = hddPath"
  shows "(0 :: u64) - 1 = 18446744073709551615 \<and> sint ((0 :: u64) - 1) = - 1 \<and>
     fst (WriteImage env hddPath 0 obj dsk) = SeekOrWriteFailure \<and>
     errored (snd (WriteImage env hddPath 0 obj dsk)) \<and>
     disk (snd (WriteImage env hddPath 0 obj dsk)) hddPath = None \<and>
     io_log (snd (WriteImage env hddPath 0 obj dsk)) =
       [Created hddPath, SeekFailed (- 1), WriteFailed SizeWrite, Removed hddPath]"
  using assms
  by (simp add: WriteImage_def enter_def fs_exists_def SetError_def fstream_open_def seekp_def
      stream_write_def abandon_def fs_remove_def stream_close_def)

theorem zero_size_request_fails_witness:
  "Map.empty ''hdd.raw'' = (None :: u8 list option) \<and> \<not> open_fails quiet \<and>
   filePath (fresh ''hdd.raw'') = ''hdd.raw'' \<and>
   fst (WriteImage quiet ''hdd.raw'' 0 (fresh ''hdd.raw'') Map.empty) = SeekOrWriteFailure \<and>
   errored (snd (WriteImage quiet ''hdd.raw'' 0 (fresh ''hdd.raw'') Map.empty)) \<and>
   disk (snd (WriteImage quiet ''hdd.raw'' 0 (fresh ''hdd.raw'') Map.empty)) ''hdd.raw'' = None \<and>
   io_log (snd (WriteImage quiet ''hdd.raw'' 0 (fresh ''hdd.raw'') Map.empty)) =
     [Created ''hdd.raw'', SeekFailed (- 1), WriteFailed SizeWrite, Removed ''hdd.raw'']"
  using zero_size_request_fails [of Map.empty "''hdd.raw''" quiet "fresh ''hdd.raw''"]
  by (simp add: quiet_def fresh_def)

section \<open>Leaving with the error latch set\<close>

text \<open>
  Claim C2, as amended. Take an object whose latch is not set and whose
  \<^verbatim>\<open>filePath\<close> is the path passed to \<^verbatim>\<open>WriteImage\<close>, as \<^verbatim>\<open>Start\<close> passes it. If
  the worker returns with the latch set from any \<^verbatim>\<open>return\<close> but the first, line 94,
  the destination does not exist afterwards. If it returns from line 94, the
  destination existed before and is still what it was.
\<close>

theorem error_exit_removes_file:
  assumes "\<not> errored obj" and "filePath obj = hddPath"
  shows "(errored (snd (WriteImage env hddPath N obj dsk)) \<and>
          fst (WriteImage env hddPath N obj dsk) \<noteq> PathAlreadyExists \<longrightarrow>
            disk (snd (WriteImage env hddPath N obj dsk)) hddPath = None) \<and>
         (fst (WriteImage env hddPath N obj dsk) = PathAlreadyExists \<longrightarrow>
            errored (snd (WriteImage env hddPath N obj dsk)) \<and>
            disk (snd (WriteImage env hddPath N obj dsk)) hddPath = dsk hddPath \<and>
            dsk hddPath \<noteq> None)"
proof (cases "dsk hddPath = None")
  case False
  then show ?thesis
    by (simp add: WriteImage_exists SetError_def enter_def)
next
  case free: True
  show ?thesis
  proof (cases "open_fails env")
    case True
    with free show ?thesis
      by (simp add: WriteImage_open_fails SetError_def enter_def fstream_open_def)
  next
    case opened: False
    show ?thesis
    proof (cases "sized env N")
      case False
      with free opened assms WriteImage_unsized [of dsk hddPath env N obj] show ?thesis
        by simp
    next
      case True
      let ?s = "loop_entry env hddPath N obj dsk"
      have "leaves ?s (unit_loop env N (WriteImage_reqMiB N) 0 ?s)"
        using opened True by (intro unit_loop_leaves) (simp add: loop_entry_fields)
      then show ?thesis
        using assms free opened True
        by (auto simp: WriteImage_loop leaves_def loop_entry_fields
              stream_close_def stream_flush_def split: flow.splits)
    qed
  qed
qed

theorem error_exit_removes_file_witness:
  "\<not> errored (fresh ''hdd.raw'') \<and> filePath (fresh ''hdd.raw'') = ''hdd.raw'' \<and>
   errored (snd (WriteImage (tail_fails_at 0) ''hdd.raw'' 10 (fresh ''hdd.raw'') Map.empty)) \<and>
   fst (WriteImage (tail_fails_at 0) ''hdd.raw'' 10 (fresh ''hdd.raw'') Map.empty) = SeekOrWriteFailure \<and>
   disk (snd (WriteImage (tail_fails_at 0) ''hdd.raw'' 10 (fresh ''hdd.raw'') Map.empty)) ''hdd.raw'' = None"
proof -
  have h: "\<not> errored (fresh ''hdd.raw'')" "filePath (fresh ''hdd.raw'') = ''hdd.raw''"
    by (simp_all add: fresh_def)
  have r: "errored (snd (WriteImage (tail_fails_at 0) ''hdd.raw'' 10 (fresh ''hdd.raw'') Map.empty))"
    "fst (WriteImage (tail_fails_at 0) ''hdd.raw'' 10 (fresh ''hdd.raw'') Map.empty) = SeekOrWriteFailure"
    by (simp_all add: run_defs tail_fails_at_def quiet_def fresh_def)
  from error_exit_removes_file [OF h, of "tail_fails_at 0" 10 Map.empty] h r show ?thesis
    by simp
qed

text \<open>
  C2 as stated fails at the first \<^verbatim>\<open>return\<close>: the latch is set and the file that
  was in the way is still there.
\<close>

theorem existing_path_error_keeps_file_counterexample:
  "\<not> errored (fresh ''hdd.raw'') \<and>
   errored (snd (WriteImage quiet ''hdd.raw'' 10 (fresh ''hdd.raw'') [''hdd.raw'' \<mapsto> [1, 2, 3]])) \<and>
   fst (WriteImage quiet ''hdd.raw'' 10 (fresh ''hdd.raw'') [''hdd.raw'' \<mapsto> [1, 2, 3]]) = PathAlreadyExists \<and>
   disk (snd (WriteImage quiet ''hdd.raw'' 10 (fresh ''hdd.raw'') [''hdd.raw'' \<mapsto> [1, 2, 3]])) ''hdd.raw''
     = Some [1, 2, 3]"
  by (simp add: run_defs fresh_def)

section \<open>A write that fails inside a unit\<close>

text \<open>
  Claim C4. If in unit \<open>k\<close> (counted from 1, so \<^verbatim>\<open>iMiB\<close> is \<open>k - 1\<close>) a chunk write
  or the tail write leaves the stream failed, the worker returns from the
  \<^verbatim>\<open>return\<close> after that write, with the latch set; the last file operation of the
  run is the removal of the file, and the destination does not exist afterwards.
\<close>

theorem failed_unit_write_removes_file:
  assumes "filePath obj = hddPath" and "0 < k"
    and "WriteFailed (ChunkWrite (k - 1) i) \<in> set (io_log (snd (WriteImage env hddPath N obj dsk))) \<or>
         WriteFailed (TailWrite (k - 1)) \<in> set (io_log (snd (WriteImage env hddPath N obj dsk)))"
  shows "fst (WriteImage env hddPath N obj dsk) = SeekOrWriteFailure \<and>
         errored (snd (WriteImage env hddPath N obj dsk)) \<and>
         last (io_log (snd (WriteImage env hddPath N obj dsk))) = Removed hddPath \<and>
         disk (snd (WriteImage env hddPath N obj dsk)) hddPath = None"
proof -
  let ?w = "snd (WriteImage env hddPath N obj dsk)"
  from assms(3) have dirty: "\<not> clean ?w"
    by (auto simp: clean_def list_ex_iff intro: bexI [where x = "WriteFailed (ChunkWrite (k - 1) i)"]
          bexI [where x = "WriteFailed (TailWrite (k - 1))"])
  have free: "dsk hddPath = None"
    using dirty by (rule contrapos_np) (simp add: WriteImage_exists SetError_def enter_def clean_def)
  have opened: "\<not> open_fails env"
    using dirty free
    by (rule_tac notI) (simp add: WriteImage_open_fails SetError_def enter_def clean_def fstream_open_def)
  have sized: "sized env N"
    using dirty free opened WriteImage_unsized [of dsk hddPath env N obj] by blast
  let ?s = "loop_entry env hddPath N obj dsk"
  have "leaves ?s (unit_loop env N (WriteImage_reqMiB N) 0 ?s)"
    using opened sized by (intro unit_loop_leaves) (simp add: loop_entry_fields)
  then show ?thesis
    using dirty assms(1) free opened sized
    by (auto simp: WriteImage_loop leaves_def loop_entry_fields clean_def
          stream_close_def stream_flush_def split: flow.splits)
qed

theorem failed_unit_write_removes_file_witness:
  "filePath (fresh ''hdd.raw'') = ''hdd.raw'' \<and> (0::nat) < 1 \<and>
   WriteFailed (TailWrite (1 - 1)) \<in>
     set (io_log (snd (WriteImage (tail_fails_at 0) ''hdd.raw'' 10 (fresh ''hdd.raw'') Map.empty))) \<and>
   fst (WriteImage (tail_fails_at 0) ''hdd.raw'' 10 (fresh ''hdd.raw'') Map.empty) = SeekOrWriteFailure \<and>
   errored (snd (WriteImage (tail_fails_at 0) ''hdd.raw'' 10 (fresh ''hdd.raw'') Map.empty)) \<and>
   last (io_log (snd (WriteImage (tail_fails_at 0) ''hdd.raw'' 10 (fresh ''hdd.raw'') Map.empty)))
     = Removed ''hdd.raw'' \<and>
   disk (snd (WriteImage (tail_fails_at 0) ''hdd.raw'' 10 (fresh ''hdd.raw'') Map.empty)) ''hdd.raw'' = None"
proof -
  have h1: "filePath (fresh ''hdd.raw'') = ''hdd.raw''" and h2: "(0::nat) < 1"
    by (simp_all add: fresh_def)
  have h3: "WriteFailed (TailWrite (1 - 1)) \<in>
     set (io_log (snd (WriteImage (tail_fails_at 0) ''hdd.raw'' 10 (fresh ''hdd.raw'') Map.empty)))"
    by (simp add: run_defs tail_fails_at_def quiet_def fresh_def)
  from failed_unit_write_removes_file [OF h1 h2 disjI2, OF h3] h1 h3 show ?thesis
    by simp
qed

section \<open>Cancellation\<close>

text \<open>
  Claim C8, as amended. Let the destination be free, the file open, the sizing
  seek and write succeed (so the size is between 1 and \<open>2 ^ 63\<close> bytes) and the
  rewind succeed. If the cancel latch reads set at the boundary of a unit
  \<open>u\<close> below the unit count, no chunk or tail write fails in units \<open>0\<close> to \<open>u\<close>,
  and the run stays within defined behaviour (as every run for a size below
  \<open>2 ^ 41\<close> bytes does), then the worker returns from the cancel branch with the
  latch set; the last file operation is the removal of the file and the
  destination does not exist afterwards.
\<close>

theorem observed_cancel_removes_file:
  assumes "filePath obj = hddPath" and "dsk hddPath = None" and "\<not> open_fails env"
    and "\<not> size_seek_fails env" and "0 < unat N" and "unat N \<le> 2 ^ 63"
    and "\<not> size_write_fails env" and "\<not> rewind_fails env"
    and "int u < WriteImage_reqMiB N" and "canceled_at env u"
    and "\<forall>v\<le>u. (\<forall>i. \<not> chunk_write_fails env v i) \<and> \<not> tail_write_fails env v"
    and "unat N < 2 ^ 41 \<or> fst (WriteImage env hddPath N obj dsk) \<noteq> Undefined"
  shows "fst (WriteImage env hddPath N obj dsk) = UserCanceled \<and>
         errored (snd (WriteImage env hddPath N obj dsk)) \<and>
         last (io_log (snd (WriteImage env hddPath N obj dsk))) = Removed hddPath \<and>
         disk (snd (WriteImage env hddPath N obj dsk)) hddPath = None"
proof -
  have sized: "sized env N"
    using assms(4-7) by (simp add: sized_iff)
  let ?s = "loop_entry env hddPath N obj dsk"
  let ?m = "WriteImage_reqMiB N"
  have s: "\<not> failbit ?s" "clean ?s" "filePath ?s = hddPath"
    using assms(1,3,8) sized by (simp_all add: loop_entry_fields)
  obtain r s' where r: "unit_loop env N ?m 0 ?s = Exit r s'" "r = Undefined \<or> r = UserCanceled"
    using unit_loop_cancel [OF s(1) _ assms(9,10,11), of 0 N] by auto
  have "r \<noteq> Undefined"
    using assms(12) r(1) unit_loop_defined [of N env 0 ?s s']
    by (auto simp: WriteImage_loop [of dsk hddPath, OF assms(2,3) sized])
  moreover have "leaves ?s (unit_loop env N ?m 0 ?s)"
    using s(2) by (rule unit_loop_leaves)
  ultimately show ?thesis
    using r s(3) by (auto simp: WriteImage_loop [of dsk hddPath, OF assms(2,3) sized] leaves_def)
qed

theorem observed_cancel_removes_file_witness:
  "filePath (fresh ''hdd.raw'') = ''hdd.raw'' \<and> Map.empty ''hdd.raw'' = (None :: u8 list option) \<and>
   \<not> open_fails (cancel_at 0) \<and> \<not> size_seek_fails (cancel_at 0) \<and> 0 < unat (10 :: u64) \<and>
   unat (10 :: u64) \<le> 2 ^ 63 \<and> \<not> size_write_fails (cancel_at 0) \<and> \<not> rewind_fails (cancel_at 0) \<and>
   int 0 < WriteImage_reqMiB 10 \<and> canceled_at (cancel_at 0) 0 \<and> unat (10 :: u64) < 2 ^ 41 \<and>
   fst (WriteImage (cancel_at 0) ''hdd.raw'' 10 (fresh ''hdd.raw'') Map.empty) = UserCanceled \<and>
   errored (snd (WriteImage (cancel_at 0) ''hdd.raw'' 10 (fresh ''hdd.raw'') Map.empty)) \<and>
   disk (snd (WriteImage (cancel_at 0) ''hdd.raw'' 10 (fresh ''hdd.raw'') Map.empty)) ''hdd.raw'' = None"
proof -
  have h: "filePath (fresh ''hdd.raw'') = ''hdd.raw''" "Map.empty ''hdd.raw'' = (None :: u8 list option)"
    "\<not> open_fails (cancel_at 0)" "\<not> size_seek_fails (cancel_at 0)" "0 < unat (10 :: u64)"
    "unat (10 :: u64) \<le> 2 ^ 63" "\<not> size_write_fails (cancel_at 0)" "\<not> rewind_fails (cancel_at 0)"
    "int 0 < WriteImage_reqMiB 10" "canceled_at (cancel_at 0) 0"
    "\<forall>v\<le>0. (\<forall>i. \<not> chunk_write_fails (cancel_at 0) v i) \<and> \<not> tail_write_fails (cancel_at 0) v"
    by (simp_all add: fresh_def cancel_at_def quiet_def WriteImage_reqMiB_def)
  have d: "unat (10 :: u64) < 2 ^ 41"
    by simp
  from observed_cancel_removes_file [OF h disjI1, OF d] h show ?thesis
    by simp
qed

text \<open>
  C8 as stated fails when the latch is set but the worker never reaches a unit
  boundary: with the destination already there it returns at line 94, and the
  file is still there.
\<close>

theorem cancel_with_existing_path_counterexample:
  "canceled_at (cancel_at 0) 0 \<and>
   fst (WriteImage (cancel_at 0) ''hdd.raw'' 10 (fresh ''hdd.raw'') [''hdd.raw'' \<mapsto> [1, 2, 3]])
     = PathAlreadyExists \<and>
   disk (snd (WriteImage (cancel_at 0) ''hdd.raw'' 10 (fresh ''hdd.raw'') [''hdd.raw'' \<mapsto> [1, 2, 3]]))
     ''hdd.raw'' = Some [1, 2, 3]"
  by (simp add: run_defs fresh_def cancel_at_def quiet_def)

section \<open>The file after a run that completes\<close>

text \<open>
  Claim C1. For a requested size \<open>N > 0\<close>: if \<^verbatim>\<open>WriteImage\<close> leaves through the end of
  its loop, past \<^verbatim>\<open>flush\<close> and \<^verbatim>\<open>close\<close>, and both succeed, then the destination
  file exists and holds exactly \<open>N\<close> bytes, all zero, and the error latch is as it
  was before the call. This holds for every environment and every 64-bit size;
  runs that leave the defined behaviour of the language are not runs that
  complete.
\<close>

theorem zero_filled_on_success:
  assumes "0 < unat N" and "fst (WriteImage env hddPath N obj dsk) = Completed"
    and "\<not> flush_fails env" and "\<not> close_fails env"
  shows "disk (snd (WriteImage env hddPath N obj dsk)) hddPath = Some (replicate (unat N) 0) \<and>
         errored (snd (WriteImage env hddPath N obj dsk)) = errored obj"
proof -
  have b: "\<not> open_fails env" "sized env N"
    using Completed_branch [OF assms(2)] by simp_all
  have "zeroed (unat N) hddPath (loop_entry env hddPath N obj dsk)"
    using b by (rule loop_entry_zeroed)
  then show ?thesis
    using b by (simp add: Completed_run [OF assms(2)] zeroed_def stream_close_def stream_flush_def
        loop_entry_fields)
qed

theorem zero_filled_on_success_witness:
  "0 < unat (3145738 :: u64) \<and>
   fst (WriteImage quiet ''hdd.raw'' 3145738 (fresh ''hdd.raw'') Map.empty) = Completed \<and>
   \<not> flush_fails quiet \<and> \<not> close_fails quiet \<and>
   disk (snd (WriteImage quiet ''hdd.raw'' 3145738 (fresh ''hdd.raw'') Map.empty)) ''hdd.raw''
     = Some (replicate 3145738 0) \<and>
   \<not> errored (snd (WriteImage quiet ''hdd.raw'' 3145738 (fresh ''hdd.raw'') Map.empty))"
proof -
  have h: "0 < unat (3145738 :: u64)" "\<not> flush_fails quiet" "\<not> close_fails quiet"
    by (simp_all add: quiet_def)
  have "fst (WriteImage quiet ''hdd.raw'' 3145738 (fresh ''hdd.raw'') Map.empty) = Completed"
    by (subst obliging_run) (simp_all add: obliging_quiet)
  from zero_filled_on_success [OF h(1) this h(2,3)] this h show ?thesis
    by (simp add: fresh_def)
qed

section \<open>The progress counter\<close>

text \<open>
  Claim C5, as amended. For a requested size \<open>N\<close> with \<open>0 < N\<close> and
  \<open>N \<le> (2 ^ 31 - 1) * 2 ^ 20\<close>, and a counter that starts at 0: the values published
  to the counter increase strictly, none exceeds \<open>N\<close> divided by one MiB, rounded
  up, the counter holds the last published value when the worker returns, and in
  a run that completes that rounded quotient is published exactly once and is the
  final value of the counter.
\<close>

theorem progress_counter_bounded:
  assumes "written obj = 0" and "0 < unat N" and "unat N \<le> (2 ^ 31 - 1) * 2 ^ 20"
  shows "sorted_wrt (<) (written obj # map snd (emitted (snd (WriteImage env hddPath N obj dsk)))) \<and>
         (\<forall>v\<in>set (map snd (emitted (snd (WriteImage env hddPath N obj dsk)))).
             v \<le> \<lceil>real (unat N) / 2 ^ 20\<rceil>) \<and>
         written (snd (WriteImage env hddPath N obj dsk)) =
           last (written obj # map snd (emitted (snd (WriteImage env hddPath N obj dsk)))) \<and>
         (fst (WriteImage env hddPath N obj dsk) = Completed \<longrightarrow>
            count_list (map snd (emitted (snd (WriteImage env hddPath N obj dsk))))
              \<lceil>real (unat N) / 2 ^ 20\<rceil> = 1 \<and>
            written (snd (WriteImage env hddPath N obj dsk)) = \<lceil>real (unat N) / 2 ^ 20\<rceil>)"
proof -
  let ?m = "WriteImage_reqMiB N"
  have m: "?m = \<lceil>real (unat N) / 2 ^ 20\<rceil>"
    using assms(3) by (rule reqMiB_in_range)
  have "0 < \<lceil>real (unat N) / 2 ^ 20\<rceil>"
    using assms(2) by (rule ceil_MiB_pos)
  with m have pos: "0 < ?m"
    by simp
  let ?w = "snd (WriteImage env hddPath N obj dsk)"
  have "tally ?m ?w \<and>
        (fst (WriteImage env hddPath N obj dsk) = Completed \<longrightarrow>
           emitted ?w \<noteq> [] \<and> snd (last (emitted ?w)) = ?m)"
  proof (cases "dsk hddPath = None \<and> \<not> open_fails env \<and> sized env N")
    case False
    then have "emitted ?w = [] \<and> written ?w = written obj \<and>
        fst (WriteImage env hddPath N obj dsk) \<noteq> Completed"
      by (rule early_return_progress)
    then show ?thesis
      using assms(1) by (simp add: tally_def)
  next
    case True
    let ?s = "loop_entry env hddPath N obj dsk"
    have "counted ?m 0 ?s"
      using True assms(1) pos by (simp add: counted_def loop_entry_fields)
    moreover have "clean ?s"
      using True by (simp add: loop_entry_fields)
    ultimately show ?thesis
      using unit_loop_counted [of ?m 0 ?s env N] loop_exit_kinds [of ?s env N ?m 0] pos True
      by (auto simp: WriteImage_loop [of dsk hddPath] tally_def stream_close_def stream_flush_def
            split: flow.splits)
  qed
  then have t: "tally ?m ?w"
    and c: "fst (WriteImage env hddPath N obj dsk) = Completed \<Longrightarrow>
           emitted ?w \<noteq> [] \<and> snd (last (emitted ?w)) = ?m"
    by simp_all
  have "count_list (map snd (emitted ?w)) ?m = 1 \<and> written ?w = ?m"
    if "fst (WriteImage env hddPath N obj dsk) = Completed"
  proof -
    from c [OF that] have e: "map snd (emitted ?w) \<noteq> []" "last (map snd (emitted ?w)) = ?m"
      by (simp_all add: last_map)
    have "sorted_wrt (<) (map snd (emitted ?w))"
      using t by (simp add: tally_def)
    from count_last_strict [OF this e(1)] e t show ?thesis
      by (simp add: tally_def)
  qed
  with t show ?thesis
    unfolding m [symmetric] using assms(1) by (simp add: tally_def)
qed

theorem progress_counter_bounded_witness:
  "written (fresh ''hdd.raw'') = 0 \<and> 0 < unat (1048586 :: u64) \<and>
   unat (1048586 :: u64) \<le> (2 ^ 31 - 1) * 2 ^ 20 \<and>
   fst (WriteImage ticking ''hdd.raw'' 1048586 (fresh ''hdd.raw'') Map.empty) = Completed \<and>
   \<lceil>real (unat (1048586 :: u64)) / 2 ^ 20\<rceil> = 2 \<and>
   map snd (emitted (snd (WriteImage ticking ''hdd.raw'' 1048586 (fresh ''hdd.raw'') Map.empty)))
     = [1, 2] \<and>
   count_list
     (map snd (emitted (snd (WriteImage ticking ''hdd.raw'' 1048586 (fresh ''hdd.raw'') Map.empty))))
     2 = 1 \<and>
   written (snd (WriteImage ticking ''hdd.raw'' 1048586 (fresh ''hdd.raw'') Map.empty)) = 2"
proof -
  have h: "written (fresh ''hdd.raw'') = 0" "0 < unat (1048586 :: u64)"
    "unat (1048586 :: u64) \<le> (2 ^ 31 - 1) * 2 ^ 20"
    by (simp_all add: fresh_def)
  have c: "fst (WriteImage ticking ''hdd.raw'' 1048586 (fresh ''hdd.raw'') Map.empty) = Completed"
    by (simp add: ticking_run)
  have v: "\<lceil>real (unat (1048586 :: u64)) / 2 ^ 20\<rceil> = 2"
    by (simp add: ceil_MiB)
  from progress_counter_bounded [OF h, of ticking "''hdd.raw''" Map.empty] h c v show ?thesis
    by (simp add: ticking_emitted)
qed

text \<open>
  C5 as stated fails for sizes whose unit count does not fit a 32-bit integer: for
  \<open>2 ^ 52\<close> bytes the narrowed unit count is 0, the loop body never runs, the run
  completes, and the counter never takes the value \<open>2 ^ 32\<close>.
\<close>

theorem huge_size_publishes_nothing_counterexample:
  "0 < unat (2 ^ 52 :: u64) \<and>
   fst (WriteImage quiet ''hdd.raw'' (2 ^ 52) (fresh ''hdd.raw'') Map.empty) = Completed \<and>
   emitted (snd (WriteImage quiet ''hdd.raw'' (2 ^ 52) (fresh ''hdd.raw'') Map.empty)) = [] \<and>
   written (snd (WriteImage quiet ''hdd.raw'' (2 ^ 52) (fresh ''hdd.raw'') Map.empty)) = 0 \<and>
   \<lceil>real (unat (2 ^ 52 :: u64)) / 2 ^ 20\<rceil> = 4294967296"
  by (simp add: run_defs quiet_def fresh_def)

section \<open>The writes of each unit\<close>

text \<open>
  Claim C6, as amended. For a requested size \<open>N\<close> with \<open>0 < N < 2 ^ 41\<close>, a free
  destination and an environment in which nothing fails and nobody cancels, the
  run completes; after creating the file and the one-byte sizing write it writes,
  for every unit \<open>u\<close> from 0 to the unit count less one and in this order,
  \<open>min 256 ((N div 1024 - u * 1024) div 4)\<close> chunks of 4096 zero bytes and, when that
  count is below 256, a tail of \<open>N - (u * 2 ^ 20 + chunks * 4096)\<close> zero bytes; the file
  then holds exactly \<open>N\<close> zero bytes.
\<close>

theorem unit_plan_followed:
  assumes "0 < unat N" and "unat N < 2 ^ 41" and "dsk hddPath = None" and "obliging env"
  shows "fst (WriteImage env hddPath N obj dsk) = Completed \<and>
         io_log (snd (WriteImage env hddPath N obj dsk)) =
           [Created hddPath, Wrote SizeWrite 1] @
           concat (map (spec_unit_writes (unat N)) [0..<nat \<lceil>real (unat N) / 2 ^ 20\<rceil>]) \<and>
         disk (snd (WriteImage env hddPath N obj dsk)) hddPath = Some (replicate (unat N) 0)"
proof -
  let ?m = "WriteImage_reqMiB N"
  have o: "\<not> open_fails env" "\<not> rewind_fails env" and z: "sized env N"
    using assms(1,2,4) by (simp_all add: obliging_def sized_iff)
  have m: "?m = \<lceil>real (unat N) / 2 ^ 20\<rceil>"
    using assms(2) by (intro reqMiB_in_range) simp
  have "map (unit_writes N) [0..<nat ?m] = map (spec_unit_writes (unat N)) [0..<nat ?m]"
    using assms(2) by (intro map_cong refl unit_writes_in_range) auto
  then have "concat (map (unit_writes N) [0..<nat ?m]) =
      concat (map (spec_unit_writes (unat N)) [0..<nat ?m])"
    by (rule arg_cong)
  moreover have "zeroed (unat N) hddPath (loop_entry env hddPath N obj dsk)"
    using o(1) z by (rule loop_entry_zeroed)
  ultimately show ?thesis
    using o z unfolding m [symmetric]
    by (simp add: obliging_run [where dsk = dsk and p = hddPath, OF assms] stream_close_def stream_flush_def loop_entry_fields
          zeroed_def)
qed

text \<open>
  The scenario of the specification: for \<open>3 * 1024 * 1024 + 10\<close> bytes there are 4
  units, the fourth has no full chunk and a tail of 10 bytes, and the file holds
  3145738 bytes.
\<close>

theorem unit_plan_followed_witness:
  "0 < unat (3145738 :: u64) \<and> unat (3145738 :: u64) < 2 ^ 41 \<and>
   Map.empty ''hdd.raw'' = (None :: u8 list option) \<and> obliging quiet \<and>
   3 * 1024 * 1024 + 10 = (3145738 :: nat) \<and>
   fst (WriteImage quiet ''hdd.raw'' 3145738 (fresh ''hdd.raw'') Map.empty) = Completed \<and>
   nat \<lceil>real (unat (3145738 :: u64)) / 2 ^ 20\<rceil> = 4 \<and>
   spec_chunks 3145738 3 = 0 \<and> spec_tail 3145738 3 = 10 \<and>
   io_log (snd (WriteImage quiet ''hdd.raw'' 3145738 (fresh ''hdd.raw'') Map.empty)) =
     [Created ''hdd.raw'', Wrote SizeWrite 1] @
     map (\<lambda>i. Wrote (ChunkWrite 0 i) 4096) [0..<256] @
     map (\<lambda>i. Wrote (ChunkWrite 1 i) 4096) [0..<256] @
     map (\<lambda>i. Wrote (ChunkWrite 2 i) 4096) [0..<256] @
     [Wrote (TailWrite 3) 10] \<and>
   disk (snd (WriteImage quiet ''hdd.raw'' 3145738 (fresh ''hdd.raw'') Map.empty)) ''hdd.raw''
     = Some (replicate 3145738 0)"
proof -
  have h: "0 < unat (3145738 :: u64)" "unat (3145738 :: u64) < 2 ^ 41"
    "Map.empty ''hdd.raw'' = (None :: u8 list option)" "obliging quiet"
    by (simp_all add: obliging_quiet)
  have c: "nat \<lceil>real (unat (3145738 :: u64)) / 2 ^ 20\<rceil> = 4"
    by simp
  have s: "spec_unit_writes 3145738 0 = map (\<lambda>i. Wrote (ChunkWrite 0 i) 4096) [0..<256]"
    "spec_unit_writes 3145738 1 = map (\<lambda>i. Wrote (ChunkWrite 1 i) 4096) [0..<256]"
    "spec_unit_writes 3145738 2 = map (\<lambda>i. Wrote (ChunkWrite 2 i) 4096) [0..<256]"
    "spec_unit_writes 3145738 (Suc 2) = [Wrote (TailWrite 3) 10]"
    "spec_chunks 3145738 3 = 0" "spec_tail 3145738 3 = 10"
    by (simp_all add: spec_unit_writes_def spec_chunks_def spec_tail_def)
  from unit_plan_followed [where dsk = Map.empty and hddPath = "''hdd.raw''" and obj = "fresh ''hdd.raw''", OF h]
    h c s show ?thesis
    by (simp add: upt_4)
qed

text \<open>
  C6 as stated fails from \<open>2 ^ 41\<close> bytes on, where the narrowing to \<^verbatim>\<open>s32\<close> in
  \<^verbatim>\<open>std::min<s32>\<close> drops bits: for \<open>2 ^ 42 + 5\<close> bytes unit 0 should have 256 full
  chunks, and the worker writes none and a tail of 5 bytes (seen in a run that is
  cancelled at the first boundary, and in the first round of a run that is not).
\<close>

theorem four_TiB_unit_plan_counterexample:
  "0 < unat (4398046511109 :: u64) \<and> int 0 < WriteImage_reqMiB 4398046511109 \<and>
   \<lceil>real (unat (4398046511109 :: u64)) / 2 ^ 20\<rceil> = 4194305 \<and>
   min 256 ((unat (4398046511109 :: u64) div 1024 - 0 * 1024) div 4) = 256 \<and>
   req4Kib_of 4398046511109 0 = 0 \<and>
   fst (WriteImage (cancel_at 0) ''hdd.raw'' 4398046511109 (fresh ''hdd.raw'') Map.empty)
     = UserCanceled \<and>
   io_log (snd (WriteImage (cancel_at 0) ''hdd.raw'' 4398046511109 (fresh ''hdd.raw'') Map.empty))
     = [Created ''hdd.raw'', Wrote SizeWrite 1, Wrote (TailWrite 0) 5, Removed ''hdd.raw''] \<and>
   io_log (state_of (unit_body quiet 4398046511109 (WriteImage_reqMiB 4398046511109) 0
       (loop_entry quiet ''hdd.raw'' 4398046511109 (fresh ''hdd.raw'') Map.empty)))
     = [Created ''hdd.raw'', Wrote SizeWrite 1, Wrote (TailWrite 0) 5]"
  by (simp add: run_defs loop_entry_def state_of_def cancel_at_def quiet_def fresh_def)

section \<open>The throttle\<close>

text \<open>
  Claim C9. Emissions carry the clock reading the worker took at their unit
  boundary, in nanoseconds. Of any two emissions of a run the later one is at
  least 100 ms after the earlier one, or it is the emission of the final unit; and
  at a unit boundary the worker emits exactly when at least 100 ms have passed
  since \<^verbatim>\<open>lastUpdate\<close> (the time of the last emission, or of the start of the loop
  when there was none) or the unit is the final one.
\<close>

theorem emissions_throttled:
  "(\<forall>i j. i < j \<and> j < length (emitted (snd (WriteImage env hddPath N obj dsk))) \<longrightarrow>
      100000000 \<le> fst (emitted (snd (WriteImage env hddPath N obj dsk)) ! j)
                    - fst (emitted (snd (WriteImage env hddPath N obj dsk)) ! i) \<or>
      snd (emitted (snd (WriteImage env hddPath N obj dsk)) ! j) = WriteImage_reqMiB N) \<and>
   (\<forall>iMiB s. emitted (publish env (WriteImage_reqMiB N) iMiB s) =
      (if 100000000 \<le> now_at env iMiB - lastUpdate s \<or> int iMiB + 1 = WriteImage_reqMiB N
       then emitted s @ [(now_at env iMiB, int iMiB + 1)] else emitted s))"
proof -
  let ?m = "WriteImage_reqMiB N"
  let ?w = "snd (WriteImage env hddPath N obj dsk)"
  have "sorted_wrt (spaced ?m) (emitted ?w)"
  proof (cases "dsk hddPath = None \<and> \<not> open_fails env \<and> sized env N")
    case False
    then have "emitted ?w = []"
      using early_return_progress by blast
    then show ?thesis by simp
  next
    case True
    let ?s = "loop_entry env hddPath N obj dsk"
    have "paced ?m 0 ?s"
      using True by (simp add: paced_def loop_entry_fields)
    from unit_loop_paced [OF this, of env N] show ?thesis
      using True
      by (auto simp: WriteImage_loop [of dsk hddPath] state_of_def stream_close_def stream_flush_def
            split: flow.splits)
  qed
  then have "\<forall>i j. i < j \<and> j < length (emitted ?w) \<longrightarrow> spaced ?m (emitted ?w ! i) (emitted ?w ! j)"
    by (simp add: sorted_wrt_iff_nth_less)
  then show ?thesis
    by (simp add: spaced_def publish_def SetFileProgress_def Let_def elapsed_ms_100)
qed

text \<open>
  A run of two units in which the final emission comes 10 ms after the one before.
\<close>

theorem emissions_throttled_witness:
  "(0 :: nat) < 1 \<and>
   1 < length (emitted (snd (WriteImage ticking ''hdd.raw'' 1048586 (fresh ''hdd.raw'') Map.empty))) \<and>
   emitted (snd (WriteImage ticking ''hdd.raw'' 1048586 (fresh ''hdd.raw'') Map.empty)) =
     [(150000000, 1), (160000000, 2)] \<and>
   WriteImage_reqMiB 1048586 = 2 \<and>
   snd (emitted (snd (WriteImage ticking ''hdd.raw'' 1048586 (fresh ''hdd.raw'') Map.empty)) ! 1)
     = WriteImage_reqMiB 1048586"
proof -
  have l: "(0 :: nat) < 1 \<and>
      1 < length (emitted (snd (WriteImage ticking ''hdd.raw'' 1048586 (fresh ''hdd.raw'') Map.empty)))"
    by (simp add: ticking_emitted)
  have m: "WriteImage_reqMiB 1048586 = 2"
    by (simp add: WriteImage_reqMiB_def)
  from emissions_throttled [of ticking "''hdd.raw''" 1048586 "fresh ''hdd.raw''" Map.empty] l
  have "100000000 \<le>
      fst (emitted (snd (WriteImage ticking ''hdd.raw'' 1048586 (fresh ''hdd.raw'') Map.empty)) ! 1)
      - fst (emitted (snd (WriteImage ticking ''hdd.raw'' 1048586 (fresh ''hdd.raw'') Map.empty)) ! 0) \<or>
    snd (emitted (snd (WriteImage ticking ''hdd.raw'' 1048586 (fresh ''hdd.raw'') Map.empty)) ! 1)
      = WriteImage_reqMiB 1048586"
    by blast
  with l m show ?thesis
    by (simp add: ticking_emitted)
qed

end
